theory Spec2Isabelle
  imports
    Complex_Main
    "HOL-Library.Char_ord"
    "HOL-Library.List_Lexorder"
    "HOL-Library.Product_Lexorder"
begin

section \<open>The record store of \<open>app.py\<close>: the tables \<open>tasks\<close> and \<open>progress\<close>\<close>

text \<open>
  \<open>app.py\<close> keeps its state in two SQLite tables and reaches them through one global
  cursor. The embedding passes the state explicitly: a table is the list of its rows in
  scan order, the database is a record of both tables and of the counter that
  \<open>AUTOINCREMENT\<close> keeps for \<open>tasks.id\<close>.

  Column \<open>progress.completed\<close> is declared \<open>BOOLEAN\<close>; SQLite stores the integer that
  \<open>update_progress\<close> passes, \<open>int(completed)\<close>, so the column is an \<open>int\<close> here and the
  queries compare it with \<open>0\<close> and \<open>1\<close> as the source does.
\<close>

record task_row =
  id' :: int
  day :: string
  task :: string

record progress_row =
  date :: string
  task_id :: int
  completed :: int

record db =
  tasks :: "task_row list"
  tasks_seq :: int
  progress :: "progress_row list"

text \<open>The database after \<open>create_tasktable\<close> and \<open>create_progresstable\<close> on a new file.\<close>

definition empty_db :: db where
  "empty_db = \<lparr>tasks = [], tasks_seq = 0, progress = []\<rparr>"

text \<open>\<open>INSERT INTO tasks(day, task)\<close>: the id is one more than the largest id ever given.\<close>

definition add_task :: "string \<Rightarrow> string \<Rightarrow> db \<Rightarrow> db" where
  "add_task d t s =
     (let n = max (tasks_seq s) (fold max (map id' (tasks s)) 0) + 1
      in s\<lparr>tasks := tasks s @ [\<lparr>id' = n, day = d, task = t\<rparr>], tasks_seq := n\<rparr>)"

text \<open>\<open>SELECT id, task FROM tasks WHERE day = ?\<close>\<close>

definition get_tasks :: "string \<Rightarrow> db \<Rightarrow> (int \<times> string) list" where
  "get_tasks d s = map (\<lambda>r. (id' r, task r)) (filter (\<lambda>r. day r = d) (tasks s))"

text \<open>\<open>DELETE FROM tasks WHERE id = ?\<close>: the progress table is not touched.\<close>

definition delete_task :: "int \<Rightarrow> db \<Rightarrow> db" where
  "delete_task i s = s\<lparr>tasks := filter (\<lambda>r. id' r \<noteq> i) (tasks s)\<rparr>"

text \<open>
  \<open>INSERT OR REPLACE INTO progress\<close> under \<open>PRIMARY KEY (date, task_id)\<close>: every row
  with the key of the new row is deleted, then the new row is inserted at the end.
  The stored value is \<open>int(completed)\<close>.
\<close>

definition int_of_bool :: "bool \<Rightarrow> int" where
  "int_of_bool b = (if b then 1 else 0)"

definition update_progress :: "string \<Rightarrow> int \<Rightarrow> bool \<Rightarrow> db \<Rightarrow> db" where
  "update_progress d t b s =
     s\<lparr>progress :=
         filter (\<lambda>r. \<not> (date r = d \<and> task_id r = t)) (progress s)
         @ [\<lparr>date = d, task_id = t, completed = int_of_bool b\<rparr>]\<rparr>"

text \<open>
  \<open>get_progress\<close>: the dict comprehension over the fetched rows; a later row with the
  same \<open>task_id\<close> replaces an earlier one, and \<open>bool(completed)\<close> is \<open>completed \<noteq> 0\<close>.
\<close>

primrec dict_of :: "('k \<times> 'v) list \<Rightarrow> ('k \<rightharpoonup> 'v) \<Rightarrow> ('k \<rightharpoonup> 'v)" where
  "dict_of [] m = m"
| "dict_of (kv # kvs) m = dict_of kvs (m(fst kv \<mapsto> snd kv))"

definition get_progress :: "string \<Rightarrow> db \<Rightarrow> (int \<rightharpoonup> bool)" where
  "get_progress d s =
     (let progress_data = map (\<lambda>r. (task_id r, completed r)) (filter (\<lambda>r. date r = d) (progress s))
      in dict_of (map (\<lambda>(task_id, completed). (task_id, completed \<noteq> 0)) progress_data) Map.empty)"

text \<open>\<open>DELETE FROM progress WHERE date = ?\<close> and \<open>DELETE FROM progress\<close>\<close>

definition reset_progress :: "string \<Rightarrow> db \<Rightarrow> db" where
  "reset_progress d s = s\<lparr>progress := filter (\<lambda>r. date r \<noteq> d) (progress s)\<rparr>"

definition reset_all_progress :: "db \<Rightarrow> db" where
  "reset_all_progress s = s\<lparr>progress := []\<rparr>"

definition get_all_progress :: "db \<Rightarrow> (string \<times> int \<times> int) list" where
  "get_all_progress s = map (\<lambda>r. (date r, task_id r, completed r)) (progress s)"

text \<open>
  What the writers of the source keep true of the progress table: the stored flags are
  \<open>0\<close> or \<open>1\<close>, and no two rows share the key \<open>(date, task_id)\<close>.
\<close>

definition flags_boolean :: "db \<Rightarrow> bool" where
  "flags_boolean s = list_all (\<lambda>r. completed r = 0 \<or> completed r = 1) (progress s)"

definition keys_distinct :: "db \<Rightarrow> bool" where
  "keys_distinct s = distinct (map (\<lambda>r. (date r, task_id r)) (progress s))"

section \<open>Calendar dates\<close>

text \<open>
  The source reads a date string with \<open>datetime.strptime(date_str, '%Y-%m-%d')\<close> in
  \<open>get_weekly_progress\<close> and with \<open>pd.to_datetime\<close> in \<open>calculate_statistics\<close>, and asks
  the resulting object for its weekday name and its ISO week number. A date object is
  the triple year, month, day of the proleptic Gregorian calendar; its order is the
  lexicographic one, which is the chronological one. The arithmetic below is that of
  Python's \<open>datetime\<close> module (\<open>_is_leap\<close>, \<open>_days_before_year\<close>, \<open>_days_in_month\<close>,
  \<open>_days_before_month\<close>, \<open>_ymd2ord\<close>, \<open>weekday\<close>, \<open>_isoweek1monday\<close>, \<open>isocalendar\<close>).
  A date object always has a month from 1 to 12, so the month tables are read in range.
  The \<open>day_name\<close> and the \<open>isocalendar().week\<close> of pandas are the same weekday name
  and the same ISO 8601 week number.
\<close>

type_synonym datetime = "int \<times> int \<times> int"

datatype error = ValueError

definition is_leap :: "int \<Rightarrow> bool" where
  "is_leap year = (year mod 4 = 0 \<and> (year mod 100 \<noteq> 0 \<or> year mod 400 = 0))"

definition days_before_year :: "int \<Rightarrow> int" where
  "days_before_year year = (let y = year - 1 in y * 365 + y div 4 - y div 100 + y div 400)"

definition days_in_month :: "int \<Rightarrow> int \<Rightarrow> int" where
  "days_in_month year month =
     (if month = 2 \<and> is_leap year then 29
      else [31, 28, 31, 30, 31, 30, 31, 31, 30, 31, 30, 31] ! nat (month - 1))"

definition days_before_month :: "int \<Rightarrow> int \<Rightarrow> int" where
  "days_before_month year month =
     [0, 31, 59, 90, 120, 151, 181, 212, 243, 273, 304, 334] ! nat (month - 1)
     + (if month > 2 \<and> is_leap year then 1 else 0)"

definition ymd2ord :: "datetime \<Rightarrow> int" where
  "ymd2ord dt = (case dt of (year, month, d) \<Rightarrow>
     days_before_year year + days_before_month year month + d)"

text \<open>Monday is 0, Sunday is 6.\<close>

definition weekday :: "datetime \<Rightarrow> int" where
  "weekday dt = (ymd2ord dt + 6) mod 7"

definition day_names :: "string list" where
  "day_names = [''Monday'', ''Tuesday'', ''Wednesday'', ''Thursday'', ''Friday'',
                ''Saturday'', ''Sunday'']"

text \<open>\<open>strftime('%A')\<close> and \<open>dt.day_name()\<close>, in the default English locale.\<close>

definition day_name :: "datetime \<Rightarrow> string" where
  "day_name dt = day_names ! nat (weekday dt)"

definition isoweek1monday :: "int \<Rightarrow> int" where
  "isoweek1monday year =
     (let firstday = ymd2ord (year, 1, 1);
          firstweekday = (firstday + 6) mod 7;
          week1monday = firstday - firstweekday
      in if firstweekday > 3 then week1monday + 7 else week1monday)"

text \<open>\<open>isocalendar().week\<close>: the ISO 8601 week number, from 1 to 53, without its year.\<close>

definition isocalendar_week :: "datetime \<Rightarrow> int" where
  "isocalendar_week dt = (case dt of (year, month, d) \<Rightarrow>
     (let today = ymd2ord dt;
          week = (today - isoweek1monday year) div 7
      in if week < 0 then (today - isoweek1monday (year - 1)) div 7 + 1
         else if week \<ge> 52 \<and> today \<ge> isoweek1monday (year + 1) then 1
         else week + 1))"

subsection \<open>\<open>datetime.strptime(date_str, '%Y-%m-%d')\<close>\<close>

text \<open>
  \<open>strptime\<close> turns the format into the regular expression
  \<open>(\d\d\d\d)-(1[0-2]|0[1-9]|[1-9])-(3[0-1]|[1-2]\d|0[1-9]|[1-9]| [1-9])\<close>, matches it at the
  start of the string, raises \<open>ValueError\<close> when it does not match or when text remains
  after the match, and raises \<open>ValueError\<close> again when the fields are not a date (year 0,
  30 February). Strings are byte strings here and a digit is an ASCII digit.
\<close>

definition digit_val :: "char \<Rightarrow> int option" where
  "digit_val c = map_of (zip ''0123456789'' [0, 1, 2, 3, 4, 5, 6, 7, 8, 9]) c"

definition year_re :: "string \<Rightarrow> (int \<times> string) option" where
  "year_re s = (case s of
      a # b # c # d # rest \<Rightarrow>
        (case (digit_val a, digit_val b, digit_val c, digit_val d) of
           (Some a', Some b', Some c', Some d') \<Rightarrow> Some (1000 * a' + 100 * b' + 10 * c' + d', rest)
         | _ \<Rightarrow> None)
    | _ \<Rightarrow> None)"

definition literal_re :: "char \<Rightarrow> string \<Rightarrow> string option" where
  "literal_re c s = (case s of x # rest \<Rightarrow> if x = c then Some rest else None | [] \<Rightarrow> None)"

definition two_digits :: "char set \<Rightarrow> char set \<Rightarrow> string \<Rightarrow> (int \<times> string) option" where
  "two_digits A B s = (case s of
      a # b # rest \<Rightarrow>
        (case (digit_val a, digit_val b) of
           (Some a', Some b') \<Rightarrow> if a \<in> A \<and> b \<in> B then Some (10 * a' + b', rest) else None
         | _ \<Rightarrow> None)
    | _ \<Rightarrow> None)"

definition one_digit :: "string \<Rightarrow> (int \<times> string) option" where
  "one_digit s = (case s of
      a # rest \<Rightarrow> (case digit_val a of Some a' \<Rightarrow> if a' \<noteq> 0 then Some (a', rest) else None
                   | None \<Rightarrow> None)
    | [] \<Rightarrow> None)"

definition first_match :: "(string \<Rightarrow> 'a option) list \<Rightarrow> string \<Rightarrow> 'a option" where
  "first_match alts s = (case List.map_filter (\<lambda>alt. alt s) alts of [] \<Rightarrow> None | r # _ \<Rightarrow> Some r)"

definition month_re :: "string \<Rightarrow> (int \<times> string) option" where
  "month_re = first_match
     [two_digits {CHR ''1''} (set ''012''),
      two_digits {CHR ''0''} (set ''123456789''),
      one_digit]"

definition day_re :: "string \<Rightarrow> (int \<times> string) option" where
  "day_re = first_match
     [two_digits {CHR ''3''} (set ''01''),
      two_digits (set ''12'') (set ''0123456789''),
      two_digits {CHR ''0''} (set ''123456789''),
      one_digit,
      (\<lambda>s. case literal_re CHR '' '' s of Some rest \<Rightarrow> one_digit rest | None \<Rightarrow> None)]"

definition strptime :: "string \<Rightarrow> error + datetime" where
  "strptime date_str =
     (case year_re date_str of None \<Rightarrow> Inl ValueError | Some (year, s1) \<Rightarrow>
      case literal_re CHR ''-'' s1 of None \<Rightarrow> Inl ValueError | Some s2 \<Rightarrow>
      case month_re s2 of None \<Rightarrow> Inl ValueError | Some (month, s3) \<Rightarrow>
      case literal_re CHR ''-'' s3 of None \<Rightarrow> Inl ValueError | Some s4 \<Rightarrow>
      case day_re s4 of None \<Rightarrow> Inl ValueError | Some (d, s5) \<Rightarrow>
      if s5 \<noteq> [] then Inl ValueError
      else if year < 1 \<or> d > days_in_month year month then Inl ValueError
      else Inr (year, month, d))"

section \<open>\<open>get_weekly_progress\<close>\<close>

text \<open>
  The loop over the result of \<open>SELECT DISTINCT date FROM progress ORDER BY date\<close>: the
  dates are compared as strings. An exception of \<open>strptime\<close> leaves the loop and the
  function. The percentage is a Python float; it is an exact rational here.
\<close>

fun weekly_loop :: "db \<Rightarrow> string list \<Rightarrow> (string \<times> rat) list \<Rightarrow> error + (string \<times> rat) list" where
  "weekly_loop s [] progress_data = Inr progress_data"
| "weekly_loop s (date_str # dates) progress_data =
     (case strptime date_str of
        Inl e \<Rightarrow> Inl e
      | Inr date_obj \<Rightarrow>
          (let total_tasks = int (length (get_tasks (day_name date_obj) s));
               completed_tasks =
                 int (length (filter (\<lambda>r. date r = date_str \<and> completed r = 1) (progress s)));
               percentage =
                 (if total_tasks > 0 then (of_int completed_tasks / of_int total_tasks) * 100
                  else 0)
           in weekly_loop s dates (progress_data @ [(date_str, percentage)])))"

definition get_weekly_progress :: "db \<Rightarrow> error + (string \<times> rat) list" where
  "get_weekly_progress s =
     (let dates = sort (remdups (map date (progress s)))
      in case weekly_loop s dates [] of
           Inl e \<Rightarrow> Inl e
         | Inr progress_data \<Rightarrow> Inr (sort_key fst progress_data))"

section \<open>\<open>calculate_statistics\<close>\<close>

text \<open>
  A row of a grouped frame: the group's key, the sum and the count of column
  \<open>Completed\<close>; the daily, weekly and daywise frames add the rate column.
\<close>

record 'k group_row =
  group_key :: 'k
  Completed_Tasks :: int
  Total_Tasks :: int

record 'k rate_row = "'k group_row" +
  Completion_Rate :: rat

text \<open>
  A row of the daywise frame after \<open>reindex\<close>: the columns are floats, and \<open>None\<close> is
  the \<open>NaN\<close> that \<open>reindex\<close> puts where the label has no group.
\<close>

record daywise_row =
  Day_Name :: string
  Daywise_Completed_Tasks :: "int option"
  Daywise_Total_Tasks :: "int option"
  Daywise_Completion_Rate :: "rat option"

record overall_stats =
  total_tasks :: int
  completed_tasks :: int
  completion_rate :: rat

record statistics =
  overall :: overall_stats
  daily :: "datetime rate_row list"
  weekly :: "int rate_row list"
  daywise :: "daywise_row list"
  heatmap :: "(datetime \<times> string) group_row list"

text \<open>
  \<open>df.groupby(key).agg({'Completed': ['sum', 'count']})\<close>: one row for each distinct key,
  the keys in ascending order, with the sum and the number of the group's values.
\<close>

definition groupby_agg :: "('r \<Rightarrow> 'k::linorder) \<Rightarrow> ('r \<Rightarrow> int) \<Rightarrow> 'r list \<Rightarrow> 'k group_row list" where
  "groupby_agg key val df =
     map (\<lambda>k. \<lparr>group_key = k,
                Completed_Tasks = sum_list (map val (filter (\<lambda>r. key r = k) df)),
                Total_Tasks = int (length (filter (\<lambda>r. key r = k) df))\<rparr>)
         (sort (remdups (map key df)))"

text \<open>The new column \<open>(Completed_Tasks / Total_Tasks) * 100\<close>; a group is never empty.\<close>

definition with_rate :: "'k group_row \<Rightarrow> 'k rate_row" where
  "with_rate g =
     \<lparr>group_key = group_key g, Completed_Tasks = Completed_Tasks g, Total_Tasks = Total_Tasks g,
      Completion_Rate = (of_int (Completed_Tasks g) / of_int (Total_Tasks g)) * 100\<rparr>"

definition reindex :: "string list \<Rightarrow> string rate_row list \<Rightarrow> daywise_row list" where
  "reindex labels rows =
     map (\<lambda>l. case find (\<lambda>g. group_key g = l) rows of
                 None \<Rightarrow> \<lparr>Day_Name = l, Daywise_Completed_Tasks = None,
                           Daywise_Total_Tasks = None, Daywise_Completion_Rate = None\<rparr>
               | Some g \<Rightarrow> \<lparr>Day_Name = l, Daywise_Completed_Tasks = Some (Completed_Tasks g),
                             Daywise_Total_Tasks = Some (Total_Tasks g),
                             Daywise_Completion_Rate = Some (Completion_Rate g)\<rparr>)
         labels"

text \<open>
  \<open>pd.to_datetime\<close> on the column of date strings, with its default \<open>errors='raise'\<close>:
  the first string that it cannot read raises. What the library reads from one string
  is the parameter \<open>to_datetime\<close>.
\<close>

fun to_datetime_column :: "(string \<Rightarrow> error + datetime) \<Rightarrow> string list \<Rightarrow> error + datetime list" where
  "to_datetime_column to_datetime [] = Inr []"
| "to_datetime_column to_datetime (x # xs) =
     (case to_datetime x of
        Inl e \<Rightarrow> Inl e
      | Inr d \<Rightarrow> (case to_datetime_column to_datetime xs of
                    Inl e \<Rightarrow> Inl e
                  | Inr ds \<Rightarrow> Inr (d # ds)))"

text \<open>The views computed from the frame \<open>df\<close> of the columns \<open>Date\<close> and \<open>Completed\<close>.\<close>

definition statistics_of :: "(datetime \<times> int) list \<Rightarrow> statistics" where
  "statistics_of df =
     (let total_tasks = int (length df);
          completed_tasks = sum_list (map snd df);
          overall_completion_rate =
            (if total_tasks > 0 then (of_int completed_tasks / of_int total_tasks) * 100 else 0);
          daily_stats = map with_rate (groupby_agg fst snd df);
          weekly_stats = map with_rate (groupby_agg (\<lambda>r. isocalendar_week (fst r)) snd df);
          daywise_stats =
            reindex day_names (map with_rate (groupby_agg (\<lambda>r. day_name (fst r)) snd df));
          heatmap_data = groupby_agg (\<lambda>r. (fst r, day_name (fst r))) snd df
      in \<lparr>overall = \<lparr>total_tasks = total_tasks, completed_tasks = completed_tasks,
                       completion_rate = overall_completion_rate\<rparr>,
          daily = daily_stats, weekly = weekly_stats, daywise = daywise_stats,
          heatmap = heatmap_data\<rparr>)"

definition calculate_statistics ::
    "(string \<Rightarrow> error + datetime) \<Rightarrow> db \<Rightarrow> error + statistics option" where
  "calculate_statistics to_datetime s =
     (let data = map (\<lambda>r. (date r, completed r)) (progress s)
      in if data = [] then Inr None
         else case to_datetime_column to_datetime (map fst data) of
                Inl e \<Rightarrow> Inl e
              | Inr dates \<Rightarrow> Inr (Some (statistics_of (zip dates (map snd data)))))"

section \<open>The ranking of \<open>show_insights\<close>\<close>

text \<open>
  The query behind "Frequently Incomplete Tasks": \<open>progress JOIN tasks ON
  progress.task_id = tasks.id WHERE progress.completed = 0 GROUP BY tasks.task ORDER BY
  incomplete_count DESC LIMIT 5\<close>. SQL leaves the order of groups with equal counts open;
  here the groups come in ascending order of the description and the sort by count is
  stable. No property below depends on that choice.
\<close>

definition incomplete_join :: "db \<Rightarrow> string list" where
  "incomplete_join s =
     [task t. p \<leftarrow> progress s, t \<leftarrow> tasks s, task_id p = id' t, completed p = 0]"

definition incomplete_tasks :: "db \<Rightarrow> (string \<times> int) list" where
  "incomplete_tasks s =
     (let joined = incomplete_join s;
          groups = map (\<lambda>k. (k, int (length (filter (\<lambda>x. x = k) joined)))) (sort (remdups joined))
      in take 5 (sort_key (\<lambda>g. - snd g) groups))"

section \<open>Example databases\<close>

text \<open>
  States built with the operations of the record store, used to run the definitions.
  All but the last are states that the application reaches through its pages. In \<open>two_tasks_db\<close> two Monday tasks have a record on Monday 1 January 2024, one done
  and one not; in \<open>deleted_task_db\<close> both are done and the first task is then deleted;
  \<open>two_years_db\<close> has a record on 20 March 2023 and one on 18 March 2024, both Mondays of
  ISO week 12; \<open>two_days_db\<close> has a Tuesday task as well, done on Tuesday 2 January 2024
  and written before the two Monday records; in \<open>ranking_db\<close> the Tuesday task is
  deleted after it was left undone once, and the two Monday tasks have records on two
  Mondays; \<open>malformed_db\<close> has a record dated 30 February, which the pages never
  write and only a direct call of \<open>update_progress\<close> or another writer of the file can.
\<close>

definition monday_tasks_db :: db where
  "monday_tasks_db = add_task ''Monday'' ''mop'' (add_task ''Monday'' ''dust'' empty_db)"

definition two_tasks_db :: db where
  "two_tasks_db =
     update_progress ''2024-01-01'' 2 False (update_progress ''2024-01-01'' 1 True monday_tasks_db)"

definition deleted_task_db :: db where
  "deleted_task_db =
     delete_task 1
       (update_progress ''2024-01-01'' 2 True (update_progress ''2024-01-01'' 1 True monday_tasks_db))"

definition two_years_db :: db where
  "two_years_db =
     update_progress ''2024-03-18'' 2 True (update_progress ''2023-03-20'' 1 False monday_tasks_db)"

definition two_days_db :: db where
  "two_days_db =
     update_progress ''2024-01-01'' 2 False
       (update_progress ''2024-01-01'' 1 True
         (update_progress ''2024-01-02'' 3 True (add_task ''Tuesday'' ''bins'' monday_tasks_db)))"

definition ranking_db :: db where
  "ranking_db =
     delete_task 3
       (update_progress ''2024-01-02'' 3 False
         (update_progress ''2024-01-08'' 2 True
           (update_progress ''2024-01-08'' 1 False
             (update_progress ''2024-01-01'' 2 False
               (update_progress ''2024-01-01'' 1 False
                 (add_task ''Tuesday'' ''bins'' monday_tasks_db))))))"

definition malformed_db :: db where
  "malformed_db = update_progress ''2024-02-30'' 1 True two_tasks_db"

section \<open>Properties of the record store\<close>

text \<open>
  The operations keep the stored flags 0 or 1, the keys of the progress table distinct
  and the ids of the task table distinct, starting from the empty database.
\<close>

lemma flags_boolean_kept:
  "flags_boolean empty_db"
  "flags_boolean s \<Longrightarrow> flags_boolean (update_progress d t b s)"
  "flags_boolean s \<Longrightarrow> flags_boolean (reset_progress d s)"
  "flags_boolean (reset_all_progress s)"
  "flags_boolean s \<Longrightarrow> flags_boolean (add_task dn tn s)"
  "flags_boolean s \<Longrightarrow> flags_boolean (delete_task i s)"
  by (auto simp: flags_boolean_def empty_db_def update_progress_def reset_progress_def
      reset_all_progress_def add_task_def delete_task_def int_of_bool_def Let_def list_all_iff)

lemma keys_distinct_kept:
  "keys_distinct empty_db"
  "keys_distinct s \<Longrightarrow> keys_distinct (update_progress d t b s)"
  "keys_distinct s \<Longrightarrow> keys_distinct (reset_progress d s)"
  "keys_distinct (reset_all_progress s)"
  "keys_distinct s \<Longrightarrow> keys_distinct (add_task dn tn s)"
  "keys_distinct s \<Longrightarrow> keys_distinct (delete_task i s)"
  by (auto simp: keys_distinct_def empty_db_def update_progress_def reset_progress_def
      reset_all_progress_def add_task_def delete_task_def Let_def distinct_map_filter
      intro: distinct_map_filter)

lemma fold_max_ge:
  fixes a :: int
  shows "a \<le> fold max xs a" and "\<forall>x\<in>set xs. x \<le> fold max xs a"
proof -
  have "a \<le> fold max xs a \<and> (\<forall>x\<in>set xs. x \<le> fold max xs a)"
  proof (induction xs arbitrary: a)
    case Nil
    then show ?case by simp
  next
    case (Cons y ys)
    from Cons.IH [of "max y a"] show ?case by auto
  qed
  then show "a \<le> fold max xs a" and "\<forall>x\<in>set xs. x \<le> fold max xs a" by simp_all
qed

lemma task_ids_distinct_kept:
  "distinct (map id' (tasks empty_db))"
  "distinct (map id' (tasks s)) \<Longrightarrow> distinct (map id' (tasks (add_task dn tn s)))"
  "distinct (map id' (tasks s)) \<Longrightarrow> distinct (map id' (tasks (delete_task i s)))"
  "tasks (update_progress d t b s) = tasks s"
  "tasks (reset_progress d s) = tasks s"
  "tasks (reset_all_progress s) = tasks s"
proof -
  show "distinct (map id' (tasks empty_db))" by (simp add: empty_db_def)
  show "distinct (map id' (tasks (add_task dn tn s)))" if "distinct (map id' (tasks s))"
  proof -
    have "\<forall>x\<in>set (map id' (tasks s)). x \<le> fold max (map id' (tasks s)) 0"
      by (rule fold_max_ge(2))
    then have "max (tasks_seq s) (fold max (map id' (tasks s)) 0) + 1 \<notin> id' ` set (tasks s)"
      by fastforce
    with that show ?thesis by (simp add: add_task_def Let_def)
  qed
  show "distinct (map id' (tasks (delete_task i s)))" if "distinct (map id' (tasks s))"
    using that by (simp add: delete_task_def distinct_map_filter)
qed (simp_all add: update_progress_def reset_progress_def reset_all_progress_def)

lemma dict_of_eq:
  "dict_of kvs m x = (case map_of (rev kvs) x of None \<Rightarrow> m x | Some v \<Rightarrow> Some v)"
  by (induction kvs arbitrary: m) (auto simp: map_add_def split: option.splits)

lemma map_of_filter_other:
  "x \<noteq> k \<Longrightarrow> map_of (filter (\<lambda>kv. fst kv \<noteq> k) kvs) x = map_of kvs x"
  by (induction kvs) auto

lemma get_progress_eq:
  "get_progress d s =
     map_of (rev (map (\<lambda>r. (task_id r, completed r \<noteq> 0)) (filter (\<lambda>r. date r = d) (progress s))))"
  by (rule ext) (simp add: get_progress_def dict_of_eq comp_def split: option.splits)

lemma replaced_rows:
  "map (\<lambda>r. (task_id r, g r))
     (filter (\<lambda>r. date r = d) (filter (\<lambda>r. \<not> (date r = d \<and> task_id r = t)) rows))
   = filter (\<lambda>kv. fst kv \<noteq> t) (map (\<lambda>r. (task_id r, g r)) (filter (\<lambda>r. date r = d) rows))"
  by (induction rows) auto

lemma get_progress_update:
  "get_progress d (update_progress d t b s) = (get_progress d s)(t \<mapsto> b)"
proof (rule ext)
  fix x
  let ?kv = "\<lambda>r. (task_id r, completed r \<noteq> 0)"
  let ?old = "map ?kv (filter (\<lambda>r. date r = d) (progress s))"
  have new: "map ?kv (filter (\<lambda>r. date r = d) (progress (update_progress d t b s)))
             = filter (\<lambda>kv. fst kv \<noteq> t) ?old @ [(t, b)]"
  proof -
    have "progress (update_progress d t b s)
          = filter (\<lambda>r. \<not> (date r = d \<and> task_id r = t)) (progress s)
            @ [\<lparr>date = d, task_id = t, completed = int_of_bool b\<rparr>]"
      by (simp add: update_progress_def)
    then show ?thesis
      by (simp only: filter_append map_append replaced_rows) (simp add: int_of_bool_def)
  qed
  have "get_progress d (update_progress d t b s) x
        = map_of ((t, b) # rev (filter (\<lambda>kv. fst kv \<noteq> t) ?old)) x"
    unfolding get_progress_eq new by simp
  also have "\<dots> = ((map_of (rev ?old))(t \<mapsto> b)) x"
    by (simp add: rev_filter map_of_filter_other)
  finally show "get_progress d (update_progress d t b s) x = ((get_progress d s)(t \<mapsto> b)) x"
    by (simp add: get_progress_eq)
qed

text \<open>
  Claim C9. After \<open>update_progress d t b\<close> the dictionary that \<open>get_progress d\<close> returns is
  the former one with \<open>t\<close> mapped to \<open>b\<close>: \<open>t\<close> has exactly the value \<open>b\<close> and every
  other task id keeps its entry. Every row with another key, so every row of another
  date, is kept as it was and in its order. The table holds exactly one row with the key
  \<open>(d, t)\<close>, the one just written, so that a second write to the key replaces the row
  and leaves the number of rows as it is. The task table is not touched.
\<close>

theorem update_progress_overwrites:
  "get_progress d (update_progress d t b s) = (get_progress d s)(t \<mapsto> b)
   \<and> get_progress d (update_progress d t b s) t = Some b
   \<and> filter (\<lambda>r. \<not> (date r = d \<and> task_id r = t)) (progress (update_progress d t b s))
       = filter (\<lambda>r. \<not> (date r = d \<and> task_id r = t)) (progress s)
   \<and> filter (\<lambda>r. date r = d \<and> task_id r = t) (progress (update_progress d t b s))
       = [\<lparr>date = d, task_id = t, completed = int_of_bool b\<rparr>]
   \<and> length (progress (update_progress d t b' (update_progress d t b s)))
       = length (progress (update_progress d t b s))
   \<and> tasks (update_progress d t b s) = tasks s"
  by (simp add: get_progress_update) (simp add: update_progress_def)

theorem update_progress_overwrites_witness:
  "get_progress ''2024-01-01'' (update_progress ''2024-01-01'' 1 False
     (update_progress ''2024-01-02'' 1 True (update_progress ''2024-01-01'' 1 True empty_db))) 1
     = Some False
   \<and> progress (update_progress ''2024-01-01'' 1 False
        (update_progress ''2024-01-02'' 1 True (update_progress ''2024-01-01'' 1 True empty_db)))
     = [\<lparr>date = ''2024-01-02'', task_id = 1, completed = 1\<rparr>,
        \<lparr>date = ''2024-01-01'', task_id = 1, completed = 0\<rparr>]"
  using update_progress_overwrites [of "''2024-01-01''" 1 False
     "update_progress ''2024-01-02'' 1 True (update_progress ''2024-01-01'' 1 True empty_db)" True]
  by (simp add: update_progress_def empty_db_def int_of_bool_def)

section \<open>Reading the dates, grouping, and the frames of \<open>calculate_statistics\<close>\<close>

lemma to_datetime_column_Inr:
  "to_datetime_column f xs = Inr ds \<Longrightarrow>
     ds = map (\<lambda>x. projr (f x)) xs \<and> (\<forall>x\<in>set xs. f x = Inr (projr (f x)))"
  by (induction xs arbitrary: ds) (auto split: sum.splits)

lemma to_datetime_column_ok:
  "\<forall>x\<in>set xs. \<not> isl (f x) \<Longrightarrow> to_datetime_column f xs = Inr (map (\<lambda>x. projr (f x)) xs)"
  by (induction xs) (auto split: sum.splits)

lemma to_datetime_column_bad:
  "x \<in> set xs \<Longrightarrow> isl (f x) \<Longrightarrow> to_datetime_column f xs = Inl ValueError"
  by (induction xs) (auto split: sum.splits intro: error.exhaust)

lemma sum_groups:
  fixes g :: "'r \<Rightarrow> int"
  assumes "finite K" and "key ` set df \<subseteq> K"
  shows "(\<Sum>k\<in>K. sum_list (map g (filter (\<lambda>r. key r = k) df))) = sum_list (map g df)"
  using assms(2)
proof (induction df)
  case Nil
  then show ?case by simp
next
  case (Cons r df)
  then have in_K: "key r \<in> K" and sub: "key ` set df \<subseteq> K" by auto
  have "(\<Sum>k\<in>K. sum_list (map g (filter (\<lambda>r. key r = k) (r # df))))
        = (\<Sum>k\<in>K. (if k = key r then g r else 0) + sum_list (map g (filter (\<lambda>r. key r = k) df)))"
    by (rule sum.cong) auto
  also have "\<dots> = g r + (\<Sum>k\<in>K. sum_list (map g (filter (\<lambda>r. key r = k) df)))"
    using assms(1) in_K by (simp add: sum.distrib)
  finally show ?case using Cons.IH [OF sub] by simp
qed

lemma sum_list_groupby:
  fixes g :: "'r \<Rightarrow> int" and key :: "'r \<Rightarrow> 'k::linorder"
  shows "sum_list (map (\<lambda>k. sum_list (map g (filter (\<lambda>r. key r = k) df))) (sort (remdups (map key df))))
         = sum_list (map g df)"
proof -
  have "sum_list (map (\<lambda>k. sum_list (map g (filter (\<lambda>r. key r = k) df))) (sort (remdups (map key df))))
        = (\<Sum>k\<in>set (sort (remdups (map key df))). sum_list (map g (filter (\<lambda>r. key r = k) df)))"
    by (rule sum_list_distinct_conv_sum_set) simp
  also have "\<dots> = sum_list (map g df)"
    by (rule sum_groups) auto
  finally show ?thesis .
qed

lemma groupby_agg_keys: "map group_key (groupby_agg key val df) = sort (remdups (map key df))"
  by (simp add: groupby_agg_def comp_def)

lemma groupby_agg_completed:
  "sum_list (map Completed_Tasks (groupby_agg key val df)) = sum_list (map val df)"
  by (simp add: groupby_agg_def comp_def sum_list_groupby)

lemma groupby_agg_total:
  "sum_list (map Total_Tasks (groupby_agg key val df)) = int (length df)"
  using sum_list_groupby [of "\<lambda>_. 1" key df]
  by (simp add: groupby_agg_def comp_def sum_list_triv)

lemma groupby_agg_row:
  assumes "g \<in> set (groupby_agg key val df)"
  shows "group_key g \<in> key ` set df"
    and "Completed_Tasks g = sum_list (map val (filter (\<lambda>r. key r = group_key g) df))"
    and "Total_Tasks g = int (length (filter (\<lambda>r. key r = group_key g) df))"
    and "Total_Tasks g \<ge> 1"
proof -
  from assms obtain k where k: "k \<in> key ` set df"
    and g: "g = \<lparr>group_key = k,
                Completed_Tasks = sum_list (map val (filter (\<lambda>r. key r = k) df)),
                Total_Tasks = int (length (filter (\<lambda>r. key r = k) df))\<rparr>"
    by (auto simp: groupby_agg_def)
  show "group_key g \<in> key ` set df" using k g by simp
  show "Completed_Tasks g = sum_list (map val (filter (\<lambda>r. key r = group_key g) df))"
    using g by simp
  show "Total_Tasks g = int (length (filter (\<lambda>r. key r = group_key g) df))"
    using g by simp
  from k obtain r where "r \<in> set df" "key r = k" by auto
  then have "filter (\<lambda>r. key r = k) df \<noteq> []" by (auto simp: filter_empty_conv)
  then show "Total_Tasks g \<ge> 1" using g by (cases "filter (\<lambda>r. key r = k) df") auto
qed

lemma sum_list_flags:
  fixes val :: "'r \<Rightarrow> int"
  assumes "\<forall>r\<in>set xs. val r = 0 \<or> val r = 1"
  shows "sum_list (map val xs) = int (length (filter (\<lambda>r. val r = 1) xs))"
  using assms by (induction xs) auto


lemma calculate_statistics_Some:
  assumes "calculate_statistics f s = Inr (Some st)"
  shows "progress s \<noteq> []"
    and "\<forall>r\<in>set (progress s). f (date r) = Inr (projr (f (date r)))"
    and "st = statistics_of (map (\<lambda>r. (projr (f (date r)), completed r)) (progress s))"
proof -
  show ne: "progress s \<noteq> []"
    using assms by (auto simp: calculate_statistics_def)
  from assms ne obtain ds where ds: "to_datetime_column f (map date (progress s)) = Inr ds"
    and st: "st = statistics_of (zip ds (map completed (progress s)))"
    by (auto simp: calculate_statistics_def comp_def split: sum.splits)
  from to_datetime_column_Inr [OF ds]
  have d1: "ds = map (\<lambda>r. projr (f (date r))) (progress s)"
    and d2: "\<forall>r\<in>set (progress s). f (date r) = Inr (projr (f (date r)))"
    by (simp_all add: comp_def)
  show "\<forall>r\<in>set (progress s). f (date r) = Inr (projr (f (date r)))" by (rule d2)
  show "st = statistics_of (map (\<lambda>r. (projr (f (date r)), completed r)) (progress s))"
    unfolding st d1 by (simp add: zip_map_map zip_same_conv_map comp_def)
qed

lemma calculate_statistics_ok:
  assumes "progress s \<noteq> []" and "\<forall>r\<in>set (progress s). \<not> isl (f (date r))"
  shows "calculate_statistics f s
         = Inr (Some (statistics_of (map (\<lambda>r. (projr (f (date r)), completed r)) (progress s))))"
proof -
  have "to_datetime_column f (map date (progress s))
        = Inr (map (\<lambda>x. projr (f x)) (map date (progress s)))"
    by (rule to_datetime_column_ok) (use assms(2) in simp)
  then show ?thesis using assms(1)
    by (simp add: calculate_statistics_def comp_def zip_map_map zip_same_conv_map)
qed

lemma calculate_statistics_bad:
  assumes "r \<in> set (progress s)" and "isl (f (date r))"
  shows "calculate_statistics f s = Inl ValueError"
proof -
  have "to_datetime_column f (map date (progress s)) = Inl ValueError"
    by (rule to_datetime_column_bad [of "date r"]) (use assms in auto)
  moreover have "progress s \<noteq> []" using assms(1) by auto
  ultimately show ?thesis by (simp add: calculate_statistics_def comp_def)
qed

lemma weekly_loop_bad:
  "x \<in> set dates \<Longrightarrow> isl (strptime x) \<Longrightarrow> weekly_loop s dates acc = Inl ValueError"
proof (induction dates arbitrary: acc)
  case Nil
  then show ?case by simp
next
  case (Cons d dates)
  show ?case
  proof (cases "strptime d")
    case (Inl e)
    then show ?thesis by (cases e) simp
  next
    case (Inr dt)
    with Cons.prems have "x \<in> set dates" by auto
    then have "\<And>acc. weekly_loop s dates acc = Inl ValueError"
      using Cons.IH Cons.prems(2) by blast
    with Inr show ?thesis by (simp add: Let_def)
  qed
qed

lemma frame_filter:
  assumes "\<forall>r\<in>set rows. f (date r) = Inr (projr (f (date r)))"
  shows "filter (\<lambda>x. K (fst x) = k) (map (\<lambda>r. (projr (f (date r)), completed r)) rows)
         = map (\<lambda>r. (projr (f (date r)), completed r))
             (filter (\<lambda>r. \<exists>d. f (date r) = Inr d \<and> K d = k) rows)"
  using assms
proof (induction rows)
  case Nil
  then show ?case by simp
next
  case (Cons r rows)
  then have r: "f (date r) = Inr (projr (f (date r)))" by simp
  have "(\<exists>d. f (date r) = Inr d \<and> K d = k) \<longleftrightarrow> K (projr (f (date r))) = k"
    using r by (metis sum.inject(2))
  with Cons show ?case by simp
qed

lemma frame_keys:
  assumes "\<forall>r\<in>set rows. f (date r) = Inr (projr (f (date r)))"
  shows "(\<lambda>x. K (fst x)) ` set (map (\<lambda>r. (projr (f (date r)), completed r)) rows)
         = {k. \<exists>r\<in>set rows. \<exists>d. f (date r) = Inr d \<and> K d = k}"
proof -
  have "\<And>r. r \<in> set rows \<Longrightarrow> (\<exists>d. f (date r) = Inr d \<and> K d = k) \<longleftrightarrow> K (projr (f (date r))) = k" for k
    using assms by (metis sum.inject(2))
  then show ?thesis by (auto simp: image_iff)
qed

lemma frame_group_row:
  assumes ok: "\<forall>r\<in>set rows. f (date r) = Inr (projr (f (date r)))"
    and g: "g \<in> set (groupby_agg (\<lambda>x. K (fst x)) snd (map (\<lambda>r. (projr (f (date r)), completed r)) rows))"
  shows "Total_Tasks g
           = int (length (filter (\<lambda>r. \<exists>d. f (date r) = Inr d \<and> K d = group_key g) rows))"
    and "Completed_Tasks g
           = sum_list (map completed (filter (\<lambda>r. \<exists>d. f (date r) = Inr d \<and> K d = group_key g) rows))"
    and "\<exists>r\<in>set rows. \<exists>d. f (date r) = Inr d \<and> K d = group_key g"
    and "Total_Tasks g \<ge> 1"
proof -
  note row = groupby_agg_row [OF g]
  show "Total_Tasks g
           = int (length (filter (\<lambda>r. \<exists>d. f (date r) = Inr d \<and> K d = group_key g) rows))"
    using row(3) by (simp add: frame_filter [OF ok])
  show "Completed_Tasks g
           = sum_list (map completed (filter (\<lambda>r. \<exists>d. f (date r) = Inr d \<and> K d = group_key g) rows))"
    using row(2) by (simp add: frame_filter [OF ok] comp_def)
  show "\<exists>r\<in>set rows. \<exists>d. f (date r) = Inr d \<and> K d = group_key g"
    using row(1) frame_keys [OF ok, of K] by blast
  show "Total_Tasks g \<ge> 1" by (rule row(4))
qed

lemma with_rate_fields [simp]:
  "group_key (with_rate g) = group_key g"
  "Completed_Tasks (with_rate g) = Completed_Tasks g"
  "Total_Tasks (with_rate g) = Total_Tasks g"
  "Completion_Rate (with_rate g) = (of_int (Completed_Tasks g) / of_int (Total_Tasks g)) * 100"
  by (simp_all add: with_rate_def)

lemma statistics_of_fields:
  "total_tasks (overall (statistics_of df)) = int (length df)"
  "completed_tasks (overall (statistics_of df)) = sum_list (map snd df)"
  "completion_rate (overall (statistics_of df))
     = (if int (length df) > 0 then (of_int (sum_list (map snd df)) / of_int (int (length df))) * 100 else 0)"
  "daily (statistics_of df) = map with_rate (groupby_agg fst snd df)"
  "weekly (statistics_of df) = map with_rate (groupby_agg (\<lambda>r. isocalendar_week (fst r)) snd df)"
  "daywise (statistics_of df)
     = reindex day_names (map with_rate (groupby_agg (\<lambda>r. day_name (fst r)) snd df))"
  "heatmap (statistics_of df) = groupby_agg (\<lambda>r. (fst r, day_name (fst r))) snd df"
  by (simp_all add: statistics_of_def Let_def)

lemma frame_group_keys:
  assumes ok: "\<forall>r\<in>set rows. f (date r) = Inr (projr (f (date r)))"
  shows "sorted_wrt (<) (map group_key (groupby_agg (\<lambda>x. K (fst x)) snd (map (\<lambda>r. (projr (f (date r)), completed r)) rows)))"
    and "set (map group_key (groupby_agg (\<lambda>x. K (fst x)) snd (map (\<lambda>r. (projr (f (date r)), completed r)) rows)))
         = {k. \<exists>r\<in>set rows. \<exists>d. f (date r) = Inr d \<and> K d = k}"
proof -
  show "sorted_wrt (<) (map group_key (groupby_agg (\<lambda>x. K (fst x)) snd (map (\<lambda>r. (projr (f (date r)), completed r)) rows)))"
    by (simp add: groupby_agg_keys strict_sorted_iff)
  show "set (map group_key (groupby_agg (\<lambda>x. K (fst x)) snd (map (\<lambda>r. (projr (f (date r)), completed r)) rows)))
         = {k. \<exists>r\<in>set rows. \<exists>d. f (date r) = Inr d \<and> K d = k}"
    unfolding groupby_agg_keys using frame_keys [OF ok, of K] by (simp add: image_image)
qed

lemma find_by_key:
  assumes "\<And>k. kf (h k) = k"
  shows "find (\<lambda>g. kf g = l) (map h ks) = (if l \<in> set ks then Some (h l) else None)"
  using assms by (induction ks) auto

lemma find_group:
  "find (\<lambda>g. group_key g = l) (map with_rate (groupby_agg key val df))
   = (if l \<in> key ` set df
      then Some (with_rate \<lparr>group_key = l,
                   Completed_Tasks = sum_list (map val (filter (\<lambda>r. key r = l) df)),
                   Total_Tasks = int (length (filter (\<lambda>r. key r = l) df))\<rparr>)
      else None)"
proof -
  let ?h = "\<lambda>k. with_rate \<lparr>group_key = k,
                   Completed_Tasks = sum_list (map val (filter (\<lambda>r. key r = k) df)),
                   Total_Tasks = int (length (filter (\<lambda>r. key r = k) df))\<rparr>"
  have "map with_rate (groupby_agg key val df) = map ?h (sort (remdups (map key df)))"
    by (simp add: groupby_agg_def)
  moreover have "find (\<lambda>g. group_key g = l) (map ?h (sort (remdups (map key df))))
        = (if l \<in> set (sort (remdups (map key df))) then Some (?h l) else None)"
    by (rule find_by_key) simp
  ultimately show ?thesis by simp
qed

section \<open>The loop of \<open>get_weekly_progress\<close> and the join of the ranking\<close>

lemma weekly_loop_ok:
  fixes s :: db
  defines "pct \<equiv> \<lambda>d.
     (if int (length (get_tasks (day_name (projr (strptime d))) s)) > 0
      then (of_int (int (length (filter (\<lambda>r. date r = d \<and> completed r = 1) (progress s))))
            / of_int (int (length (get_tasks (day_name (projr (strptime d))) s)))) * 100
      else (0::rat))"
  assumes "\<forall>x\<in>set dates. \<not> isl (strptime x)"
  shows "weekly_loop s dates acc = Inr (acc @ map (\<lambda>d. (d, pct d)) dates)"
  using assms(2)
proof (induction dates arbitrary: acc)
  case Nil
  then show ?case by simp
next
  case (Cons d dates)
  then obtain dt where dt: "strptime d = Inr dt" by (cases "strptime d") auto
  have "weekly_loop s (d # dates) acc = weekly_loop s dates (acc @ [(d, pct d)])"
    using dt by (simp add: pct_def Let_def)
  also have "\<dots> = Inr ((acc @ [(d, pct d)]) @ map (\<lambda>d. (d, pct d)) dates)"
    using Cons.prems by (intro Cons.IH) simp
  finally show ?case by simp
qed

lemma sort_key_fst_pairs:
  "sorted ds \<Longrightarrow> sort_key fst (map (\<lambda>d. (d, g d)) ds) = map (\<lambda>d. (d, g d)) ds"
  by (rule sort_key_id_if_sorted) (simp add: comp_def)

lemma get_weekly_progress_ok:
  assumes "\<forall>r\<in>set (progress s). \<not> isl (strptime (date r))"
  shows "get_weekly_progress s
         = Inr (map (\<lambda>d. (d,
              if int (length (get_tasks (day_name (projr (strptime d))) s)) > 0
              then (of_int (int (length (filter (\<lambda>r. date r = d \<and> completed r = 1) (progress s))))
                    / of_int (int (length (get_tasks (day_name (projr (strptime d))) s)))) * 100
              else (0::rat)))
            (sort (remdups (map date (progress s)))))"
proof -
  have "\<forall>x\<in>set (sort (remdups (map date (progress s)))). \<not> isl (strptime x)"
    using assms by auto
  from weekly_loop_ok [OF this, of s "[]"] show ?thesis
    by (simp add: get_weekly_progress_def sort_key_fst_pairs)
qed

lemma get_weekly_progress_Inr:
  assumes "get_weekly_progress s = Inr rows"
  shows "\<forall>r\<in>set (progress s). \<not> isl (strptime (date r))"
proof (rule ccontr)
  assume "\<not> (\<forall>r\<in>set (progress s). \<not> isl (strptime (date r)))"
  then obtain r where "r \<in> set (progress s)" "isl (strptime (date r))" by auto
  then have "date r \<in> set (sort (remdups (map date (progress s))))" "isl (strptime (date r))"
    by simp_all
  then have "weekly_loop s (sort (remdups (map date (progress s)))) [] = Inl ValueError"
    by (rule weekly_loop_bad)
  with assms show False by (simp add: get_weekly_progress_def)
qed

lemma incomplete_join_concat:
  "incomplete_join s
   = concat (map (\<lambda>p. concat (map (\<lambda>t. if task_id p = id' t \<and> completed p = 0 then [task t] else [])
                                  (tasks s))) (progress s))"
  unfolding incomplete_join_def
  by (intro arg_cong [where f = concat] map_cong refl) auto

lemma matches_none:
  "\<forall>t\<in>set T. id' t \<noteq> i \<Longrightarrow>
     concat (map (\<lambda>t. if i = id' t \<and> c then [task t] else []) T) = []"
  by (induction T) auto

lemma matches_count:
  "distinct (map id' T) \<Longrightarrow>
     length (filter (\<lambda>x. x = k) (concat (map (\<lambda>t. if i = id' t \<and> c then [task t] else []) T)))
     = (if c \<and> (\<exists>t\<in>set T. id' t = i \<and> task t = k) then 1 else 0)"
proof (induction T)
  case Nil
  then show ?case by simp
next
  case (Cons t T)
  show ?case
  proof (cases "i = id' t")
    case True
    with Cons.prems have "\<forall>u\<in>set T. id' u \<noteq> i" by (auto simp: image_iff)
    then have "concat (map (\<lambda>t. if i = id' t \<and> c then [task t] else []) T) = []"
      by (rule matches_none)
    moreover have "(\<exists>u\<in>set T. id' u = i \<and> task u = k) = False"
      using \<open>\<forall>u\<in>set T. id' u \<noteq> i\<close> by auto
    ultimately show ?thesis using True by auto
  next
    case False
    with Cons show ?thesis by auto
  qed
qed

lemma join_count:
  assumes "distinct (map id' (tasks s))"
  shows "length (filter (\<lambda>x. x = k) (incomplete_join s))
         = length (filter (\<lambda>p. completed p = 0 \<and> (\<exists>t\<in>set (tasks s). id' t = task_id p \<and> task t = k))
                     (progress s))"
proof -
  have "length (filter (\<lambda>x. x = k)
          (concat (map (\<lambda>p. concat (map (\<lambda>t. if task_id p = id' t \<and> completed p = 0 then [task t] else [])
                                  (tasks s))) P)))
        = length (filter (\<lambda>p. completed p = 0 \<and> (\<exists>t\<in>set (tasks s). id' t = task_id p \<and> task t = k)) P)"
    for P
  proof (induction P)
    case Nil
    then show ?case by simp
  next
    case (Cons p P)
    show ?case
      using Cons.IH matches_count [OF assms, of k "task_id p" "completed p = 0"]
      by simp
  qed
  then show ?thesis unfolding incomplete_join_concat .
qed

lemma join_dangling:
  "incomplete_join (s\<lparr>progress := filter (\<lambda>p. \<exists>t\<in>set (tasks s). id' t = task_id p) (progress s)\<rparr>)
   = incomplete_join s"
proof -
  have "concat (map (\<lambda>p. concat (map (\<lambda>t. if task_id p = id' t \<and> completed p = 0 then [task t] else [])
                                  T)) (filter (\<lambda>p. \<exists>t\<in>set T. id' t = task_id p) P))
        = concat (map (\<lambda>p. concat (map (\<lambda>t. if task_id p = id' t \<and> completed p = 0 then [task t] else [])
                                  T)) P)"
    for P and T :: "task_row list"
  proof (induction P)
    case Nil
    then show ?case by simp
  next
    case (Cons p P)
    show ?case
    proof (cases "\<exists>t\<in>set T. id' t = task_id p")
      case True
      with Cons show ?thesis by simp
    next
      case False
      then have "\<forall>t\<in>set T. id' t \<noteq> task_id p" by auto
      from matches_none [OF this, of "completed p = 0"] False Cons show ?thesis by simp
    qed
  qed
  then show ?thesis unfolding incomplete_join_concat by simp
qed

lemma join_deleted:
  "concat (map (\<lambda>p. concat (map (\<lambda>t. if task_id p = id' t \<and> completed p = 0 then [task t] else [])
                                  (filter (\<lambda>r. id' r \<noteq> i) T))) (filter (\<lambda>p. task_id p \<noteq> i) P))
   = concat (map (\<lambda>p. concat (map (\<lambda>t. if task_id p = id' t \<and> completed p = 0 then [task t] else [])
                                  (filter (\<lambda>r. id' r \<noteq> i) T))) P)"
proof (induction P)
  case Nil
  then show ?case by simp
next
  case (Cons p P)
  show ?case
  proof (cases "task_id p = i")
    case True
    then have "\<forall>t\<in>set (filter (\<lambda>r. id' r \<noteq> i) T). id' t \<noteq> task_id p" by auto
    from matches_none [OF this, of "completed p = 0"] True Cons show ?thesis by simp
  next
    case False
    with Cons show ?thesis by simp
  qed
qed

lemma join_set: "set (incomplete_join s) \<subseteq> task ` set (tasks s)"
  unfolding incomplete_join_concat by (auto split: if_splits)

lemma sorted_desc:
  fixes xs :: "('a \<times> int) list"
  shows "sorted_wrt (\<lambda>a b. snd a \<ge> snd b) (take n (sort_key (\<lambda>g. - snd g) xs))"
proof -
  have "sorted (map (\<lambda>g. - snd g) (sort_key (\<lambda>g. - snd g) xs))"
    by (rule sorted_sort_key)
  then have "sorted_wrt (\<lambda>a b. snd a \<ge> snd b) (sort_key (\<lambda>g. - snd g) xs)"
    by (simp add: sorted_wrt_map)
  then show ?thesis by (rule sorted_wrt_take)
qed


lemma incomplete_tasks_rows:
  assumes "row \<in> set (incomplete_tasks s)"
  shows "fst row \<in> set (incomplete_join s)"
    and "snd row = int (length (filter (\<lambda>x. x = fst row) (incomplete_join s)))"
proof -
  have "set (incomplete_tasks s)
        \<subseteq> (\<lambda>k. (k, int (length (filter (\<lambda>x. x = k) (incomplete_join s))))) ` set (incomplete_join s)"
    unfolding incomplete_tasks_def Let_def
    by (rule subset_trans [OF set_take_subset]) simp
  with assms obtain k where "k \<in> set (incomplete_join s)"
    and "row = (k, int (length (filter (\<lambda>x. x = k) (incomplete_join s))))"
    by auto
  then show "fst row \<in> set (incomplete_join s)"
    and "snd row = int (length (filter (\<lambda>x. x = fst row) (incomplete_join s)))"
    by simp_all
qed

lemma incomplete_tasks_distinct: "distinct (map fst (incomplete_tasks s))"
proof -
  let ?groups = "map (\<lambda>k. (k, int (length (filter (\<lambda>x. x = k) (incomplete_join s)))))
                   (sort (remdups (incomplete_join s)))"
  have "distinct (map fst ?groups)" by (simp add: comp_def)
  then have "distinct ?groups" "inj_on fst (set ?groups)" by (simp_all only: distinct_map)
  then have "distinct (map fst (sort_key (\<lambda>g. - snd g) ?groups))"
    by (simp only: distinct_map distinct_sort set_sort simp_thms)
  then have "distinct (take 5 (map fst (sort_key (\<lambda>g. - snd g) ?groups)))"
    by (rule distinct_take)
  then show ?thesis by (simp add: incomplete_tasks_def Let_def take_map)
qed

lemma incomplete_tasks_cong:
  "incomplete_join s = incomplete_join s' \<Longrightarrow> incomplete_tasks s = incomplete_tasks s'"
  by (simp add: incomplete_tasks_def)

section \<open>Bounds on counts and rates\<close>

lemma rate_bounds:
  fixes c t :: int
  assumes "0 \<le> c" "c \<le> t" "1 \<le> t"
  shows "0 \<le> (of_int c / of_int t) * (100::rat)" and "(of_int c / of_int t) * (100::rat) \<le> 100"
proof -
  have t: "(0::rat) < of_int t" using assms(3) by simp
  have "(of_int c :: rat) \<le> of_int t" using assms(2) by simp
  then have "(of_int c / of_int t :: rat) \<le> 1" using t by (simp add: divide_le_eq)
  then have "(of_int c / of_int t) * (100::rat) \<le> 1 * 100"
    by (intro mult_right_mono) simp_all
  then show "(of_int c / of_int t) * (100::rat) \<le> 100" by (simp del: times_divide_eq_left)
  have "(0::rat) \<le> of_int c" using assms(1) by simp
  then have "(0::rat) \<le> of_int c / of_int t" using t by simp
  then show "0 \<le> (of_int c / of_int t) * (100::rat)" by (intro mult_nonneg_nonneg) simp_all
qed

lemma group_bounds:
  fixes val :: "'r \<Rightarrow> int"
  assumes flags: "\<forall>x\<in>set df. val x = 0 \<or> val x = 1"
    and g: "g \<in> set (groupby_agg key val df)"
  shows "0 \<le> Completed_Tasks g" and "Completed_Tasks g \<le> Total_Tasks g" and "1 \<le> Total_Tasks g"
proof -
  note row = groupby_agg_row [OF g]
  let ?grp = "filter (\<lambda>r. key r = group_key g) df"
  have "\<forall>x\<in>set ?grp. val x = 0 \<or> val x = 1" using flags by simp
  from sum_list_flags [OF this]
  have c: "Completed_Tasks g = int (length (filter (\<lambda>r. val r = 1) ?grp))"
    unfolding row(2) .
  show "0 \<le> Completed_Tasks g" unfolding c by simp
  have "length (filter (\<lambda>r. val r = 1) ?grp) \<le> length ?grp" by (rule length_filter_le)
  then show "Completed_Tasks g \<le> Total_Tasks g" unfolding c row(3) by simp
  show "1 \<le> Total_Tasks g" by (rule row(4))
qed

lemma rate_row_bounds:
  fixes val :: "'r \<Rightarrow> int"
  assumes flags: "\<forall>x\<in>set df. val x = 0 \<or> val x = 1"
    and row: "row \<in> set (map with_rate (groupby_agg key val df))"
  shows "0 \<le> Completed_Tasks row \<and> Completed_Tasks row \<le> Total_Tasks row
       \<and> 0 \<le> Completion_Rate row \<and> Completion_Rate row \<le> 100"
proof -
  from row obtain g where g: "g \<in> set (groupby_agg key val df)" and r: "row = with_rate g"
    by auto
  note b = group_bounds [OF flags g]
  show ?thesis unfolding r using b rate_bounds [OF b] by simp
qed

lemma overall_bounds:
  assumes flags: "\<forall>x\<in>set df. snd x = 0 \<or> snd x = (1::int)" and ne: "df \<noteq> []"
  shows "0 \<le> completed_tasks (overall (statistics_of df))
       \<and> completed_tasks (overall (statistics_of df)) \<le> total_tasks (overall (statistics_of df))
       \<and> 0 \<le> completion_rate (overall (statistics_of df))
       \<and> completion_rate (overall (statistics_of df)) \<le> 100"
proof -
  have c: "sum_list (map snd df) = int (length (filter (\<lambda>r. snd r = 1) df))"
    by (rule sum_list_flags [OF flags])
  have 1: "0 \<le> sum_list (map snd df)" unfolding c by simp
  have "length (filter (\<lambda>r. snd r = 1) df) \<le> length df" by (rule length_filter_le)
  then have 2: "sum_list (map snd df) \<le> int (length df)" unfolding c by simp
  have 3: "1 \<le> int (length df)" using ne by (cases df) auto
  show ?thesis
    using 1 2 3 rate_bounds [OF 1 2 3] by (simp add: statistics_of_fields)
qed

lemma daywise_row_bounds:
  fixes val :: "'r \<Rightarrow> int"
  assumes flags: "\<forall>x\<in>set df. val x = 0 \<or> val x = 1"
    and row: "row \<in> set (reindex labels (map with_rate (groupby_agg key val df)))"
  shows "case (Daywise_Completed_Tasks row, Daywise_Total_Tasks row, Daywise_Completion_Rate row) of
           (Some c, Some t, Some r) \<Rightarrow> 0 \<le> c \<and> c \<le> t \<and> 0 \<le> r \<and> r \<le> 100
         | (None, None, None) \<Rightarrow> True
         | _ \<Rightarrow> False"
proof -
  let ?rows = "map with_rate (groupby_agg key val df)"
  from row obtain l where
    r: "row = (case find (\<lambda>g. group_key g = l) ?rows of
                 None \<Rightarrow> \<lparr>Day_Name = l, Daywise_Completed_Tasks = None,
                           Daywise_Total_Tasks = None, Daywise_Completion_Rate = None\<rparr>
               | Some g \<Rightarrow> \<lparr>Day_Name = l, Daywise_Completed_Tasks = Some (Completed_Tasks g),
                             Daywise_Total_Tasks = Some (Total_Tasks g),
                             Daywise_Completion_Rate = Some (Completion_Rate g)\<rparr>)"
    unfolding reindex_def by auto
  show ?thesis
  proof (cases "find (\<lambda>g. group_key g = l) ?rows")
    case None
    then show ?thesis unfolding r by simp
  next
    case (Some g)
    then have "g \<in> set ?rows" by (metis find_Some_iff nth_mem)
    from rate_row_bounds [OF flags this] Some show ?thesis unfolding r by simp
  qed
qed


section \<open>The claims about the statistics\<close>

text \<open>
  Claim C3, as the source has it. The claim promises a statistics object for every log
  that is not empty. \<open>pd.to_datetime\<close> raises on a date that it cannot read and
  \<open>calculate_statistics\<close> does not catch it: on \<open>malformed_db\<close>, whose log has three
  records, one of them dated 30 February, the call ends in \<open>ValueError\<close> and returns
  neither \<open>None\<close> nor a statistics object.
\<close>

theorem calculate_statistics_raises_on_nonempty_log:
  "progress malformed_db \<noteq> []
   \<and> calculate_statistics strptime malformed_db = Inl ValueError
   \<and> calculate_statistics strptime malformed_db \<noteq> Inr None"
  by code_simp

text \<open>
  Claim C3, amended. On an empty completion log \<open>calculate_statistics\<close> returns \<open>None\<close>,
  which is no statistics object at all. On a log that is not empty it never returns
  \<open>None\<close>; it returns a statistics object when \<open>pd.to_datetime\<close> reads the date of every
  record, and only then: with a date that cannot be read it raises.
\<close>

theorem calculate_statistics_absent_iff_empty:
  "(progress s = [] \<longrightarrow> calculate_statistics to_datetime s = Inr None)
   \<and> (progress s \<noteq> [] \<longrightarrow> calculate_statistics to_datetime s \<noteq> Inr None)
   \<and> (progress s \<noteq> [] \<and> (\<forall>r\<in>set (progress s). \<not> isl (to_datetime (date r)))
        \<longrightarrow> (\<exists>st. calculate_statistics to_datetime s = Inr (Some st)))
   \<and> (progress s \<noteq> [] \<longrightarrow>
        ((\<exists>st. calculate_statistics to_datetime s = Inr (Some st))
          \<longleftrightarrow> (\<forall>r\<in>set (progress s). \<not> isl (to_datetime (date r)))))
   \<and> (progress s \<noteq> [] \<and> \<not> (\<forall>r\<in>set (progress s). \<not> isl (to_datetime (date r)))
        \<longrightarrow> calculate_statistics to_datetime s = Inl ValueError)"
proof -
  have empty: "calculate_statistics to_datetime s = Inr None" if "progress s = []"
    using that by (simp add: calculate_statistics_def)
  have not_none: "calculate_statistics to_datetime s \<noteq> Inr None" if "progress s \<noteq> []"
    using that by (simp add: calculate_statistics_def split: sum.splits)
  have present: "\<exists>st. calculate_statistics to_datetime s = Inr (Some st)"
    if "progress s \<noteq> []" "\<forall>r\<in>set (progress s). \<not> isl (to_datetime (date r))"
    using calculate_statistics_ok [of s to_datetime] that by blast
  have raises: "calculate_statistics to_datetime s = Inl ValueError"
    if "\<not> (\<forall>r\<in>set (progress s). \<not> isl (to_datetime (date r)))"
  proof -
    from that obtain r where "r \<in> set (progress s)" "isl (to_datetime (date r))" by blast
    then show ?thesis by (rule calculate_statistics_bad)
  qed
  have only_then: "\<forall>r\<in>set (progress s). \<not> isl (to_datetime (date r))"
    if "\<exists>st. calculate_statistics to_datetime s = Inr (Some st)"
  proof (rule ccontr)
    assume "\<not> (\<forall>r\<in>set (progress s). \<not> isl (to_datetime (date r)))"
    then have "calculate_statistics to_datetime s = Inl ValueError" by (rule raises)
    with that show False by simp
  qed
  from empty not_none present raises only_then show ?thesis by blast
qed

theorem calculate_statistics_absent_iff_empty_witness:
  "progress empty_db = []
   \<and> calculate_statistics strptime empty_db = Inr None
   \<and> progress two_tasks_db \<noteq> []
   \<and> list_all (\<lambda>r. \<not> isl (strptime (date r))) (progress two_tasks_db)
   \<and> calculate_statistics strptime two_tasks_db \<noteq> Inr None
   \<and> (\<exists>st. calculate_statistics strptime two_tasks_db = Inr (Some st))
   \<and> progress malformed_db \<noteq> []
   \<and> \<not> list_all (\<lambda>r. \<not> isl (strptime (date r))) (progress malformed_db)
   \<and> calculate_statistics strptime malformed_db = Inl ValueError"
proof -
  have e: "progress empty_db = []" by code_simp
  have n: "progress two_tasks_db \<noteq> []" by code_simp
  have p: "list_all (\<lambda>r. \<not> isl (strptime (date r))) (progress two_tasks_db)" by code_simp
  have m: "progress malformed_db \<noteq> []" by code_simp
  have q: "\<not> list_all (\<lambda>r. \<not> isl (strptime (date r))) (progress malformed_db)" by code_simp
  show ?thesis
    using e n p m q calculate_statistics_absent_iff_empty [of empty_db strptime]
      calculate_statistics_absent_iff_empty [of two_tasks_db strptime]
      calculate_statistics_absent_iff_empty [of malformed_db strptime]
    by (simp add: list_all_iff)
qed

text \<open>
  Claim C8. When the date of some record of the log cannot be read, the whole
  computation fails: \<open>calculate_statistics\<close> raises when \<open>pd.to_datetime\<close> cannot read it,
  \<open>get_weekly_progress\<close> raises when \<open>strptime\<close> cannot. Neither returns a result
  computed from the other records.
\<close>

theorem malformed_date_fails:
  assumes "r \<in> set (progress s)"
  shows "(isl (to_datetime (date r)) \<longrightarrow> calculate_statistics to_datetime s = Inl ValueError)
       \<and> (isl (strptime (date r)) \<longrightarrow> get_weekly_progress s = Inl ValueError)"
proof (intro conjI impI)
  show "calculate_statistics to_datetime s = Inl ValueError" if "isl (to_datetime (date r))"
    using assms that by (rule calculate_statistics_bad)
  show "get_weekly_progress s = Inl ValueError" if "isl (strptime (date r))"
  proof -
    have "date r \<in> set (sort (remdups (map date (progress s))))" using assms by simp
    then have "weekly_loop s (sort (remdups (map date (progress s)))) [] = Inl ValueError"
      using that by (rule weekly_loop_bad)
    then show ?thesis by (simp add: get_weekly_progress_def)
  qed
qed

theorem malformed_date_fails_witness:
  "\<lparr>date = ''2024-02-30'', task_id = 1, completed = 1\<rparr> \<in> set (progress malformed_db)
   \<and> isl (strptime ''2024-02-30'')
   \<and> calculate_statistics strptime malformed_db = Inl ValueError
   \<and> get_weekly_progress malformed_db = Inl ValueError"
proof -
  have m: "\<lparr>date = ''2024-02-30'', task_id = 1, completed = 1\<rparr> \<in> set (progress malformed_db)"
    by code_simp
  have bad: "isl (strptime ''2024-02-30'')" by code_simp
  show ?thesis
    using m bad malformed_date_fails [of "\<lparr>date = ''2024-02-30'', task_id = 1, completed = 1\<rparr>"
       malformed_db strptime]
    by simp
qed

text \<open>
  Claim C10. The views of one result agree: the overall total is the number of records
  of the log and is the sum of the totals of the daily rows and of the weekly rows; the
  overall completed count is the sum of the stored flags and is the sum of the completed
  counts of the daily rows and of the weekly rows.
\<close>

theorem views_partition_the_log:
  assumes "calculate_statistics to_datetime s = Inr (Some st)"
  shows "total_tasks (overall st) = sum_list (map Total_Tasks (daily st))
       \<and> total_tasks (overall st) = sum_list (map Total_Tasks (weekly st))
       \<and> completed_tasks (overall st) = sum_list (map Completed_Tasks (daily st))
       \<and> completed_tasks (overall st) = sum_list (map Completed_Tasks (weekly st))
       \<and> total_tasks (overall st) = int (length (progress s))
       \<and> completed_tasks (overall st) = sum_list (map completed (progress s))"
proof -
  note st = calculate_statistics_Some(3) [OF assms]
  show ?thesis unfolding st
    by (simp add: statistics_of_fields comp_def groupby_agg_total groupby_agg_completed)
qed

theorem views_partition_the_log_witness:
  "\<exists>st. calculate_statistics strptime two_years_db = Inr (Some st)
     \<and> total_tasks (overall st) = 2 \<and> completed_tasks (overall st) = 1
     \<and> map Total_Tasks (daily st) = [1, 1] \<and> map Total_Tasks (weekly st) = [2]
     \<and> map Completed_Tasks (daily st) = [0, 1] \<and> map Completed_Tasks (weekly st) = [1]"
proof -
  define st where "st = statistics_of [((2023, 3, 20), 0), ((2024, 3, 18), 1)]"
  have c: "calculate_statistics strptime two_years_db = Inr (Some st)"
    unfolding st_def by code_simp
  have v: "map Total_Tasks (daily st) = [1, 1]" "map Total_Tasks (weekly st) = [2]"
    "map Completed_Tasks (daily st) = [0, 1]" "map Completed_Tasks (weekly st) = [1]"
    unfolding st_def by code_simp+
  show ?thesis
    using views_partition_the_log [OF c] c v by (intro exI [of _ st]) simp
qed

text \<open>
  Claim C6. The daily view has one row for each date that \<open>pd.to_datetime\<close> reads from
  the log, in strictly ascending order of the date. The total of a row is the number of
  records of that date, whatever number of tasks is assigned to the day; its completed
  count is the sum of their flags, which is the number of records marked completed when
  the flags are 0 or 1; its rate is completed / total * 100, and the total is at least 1.
\<close>

theorem daily_view_by_date:
  assumes "calculate_statistics to_datetime s = Inr (Some st)"
  shows "sorted_wrt (<) (map group_key (daily st))
       \<and> set (map group_key (daily st)) = {d. \<exists>r\<in>set (progress s). to_datetime (date r) = Inr d}
       \<and> (\<forall>row\<in>set (daily st).
            Total_Tasks row
              = int (length (filter (\<lambda>r. to_datetime (date r) = Inr (group_key row)) (progress s)))
          \<and> Completed_Tasks row
              = sum_list (map completed (filter (\<lambda>r. to_datetime (date r) = Inr (group_key row)) (progress s)))
          \<and> (flags_boolean s \<longrightarrow> Completed_Tasks row
              = int (length (filter (\<lambda>r. to_datetime (date r) = Inr (group_key row) \<and> completed r = 1)
                               (progress s))))
          \<and> Total_Tasks row \<ge> 1
          \<and> Completion_Rate row = (of_int (Completed_Tasks row) / of_int (Total_Tasks row)) * 100)"
proof -
  note ok = calculate_statistics_Some(2) [OF assms]
  note st = calculate_statistics_Some(3) [OF assms]
  let ?df = "map (\<lambda>r. (projr (to_datetime (date r)), completed r)) (progress s)"
  have daily: "daily st = map with_rate (groupby_agg (\<lambda>x. id (fst x)) snd ?df)"
    unfolding st by (simp add: statistics_of_fields)
  have keys: "map group_key (daily st) = map group_key (groupby_agg (\<lambda>x. id (fst x)) snd ?df)"
    unfolding daily by (simp add: comp_def)
  have 1: "sorted_wrt (<) (map group_key (daily st))"
    unfolding keys by (rule frame_group_keys(1) [OF ok])
  have 2: "set (map group_key (daily st)) = {d. \<exists>r\<in>set (progress s). to_datetime (date r) = Inr d}"
    unfolding keys frame_group_keys(2) [OF ok] by auto
  have 3: "Total_Tasks row
              = int (length (filter (\<lambda>r. to_datetime (date r) = Inr (group_key row)) (progress s)))
          \<and> Completed_Tasks row
              = sum_list (map completed (filter (\<lambda>r. to_datetime (date r) = Inr (group_key row)) (progress s)))
          \<and> (flags_boolean s \<longrightarrow> Completed_Tasks row
              = int (length (filter (\<lambda>r. to_datetime (date r) = Inr (group_key row) \<and> completed r = 1)
                               (progress s))))
          \<and> Total_Tasks row \<ge> 1
          \<and> Completion_Rate row = (of_int (Completed_Tasks row) / of_int (Total_Tasks row)) * 100"
    if "row \<in> set (daily st)" for row
  proof -
    from that obtain g where g: "g \<in> set (groupby_agg (\<lambda>x. id (fst x)) snd ?df)"
      and row: "row = with_rate g"
      unfolding daily by auto
    have eq: "(\<lambda>r. \<exists>d. to_datetime (date r) = Inr d \<and> id d = k) = (\<lambda>r. to_datetime (date r) = Inr k)"
      for k by (rule ext) (simp del: split_paired_Ex)
    note fg = frame_group_row [OF ok g, unfolded eq]
    have c: "sum_list (map completed (filter P (progress s)))
             = int (length (filter (\<lambda>r. P r \<and> completed r = 1) (progress s)))"
      if "flags_boolean s" for P
    proof -
      have "\<forall>r\<in>set (filter P (progress s)). completed r = 0 \<or> completed r = 1"
        using that by (auto simp: flags_boolean_def list_all_iff)
      from sum_list_flags [OF this] show ?thesis by simp
    qed
    show ?thesis
      unfolding row using fg c by simp
  qed
  from 1 2 3 show ?thesis by blast
qed

theorem daily_view_by_date_witness:
  "flags_boolean two_days_db
   \<and> (\<exists>st. calculate_statistics strptime two_days_db = Inr (Some st)
        \<and> map group_key (daily st) = [(2024, 1, 1), (2024, 1, 2)]
        \<and> map Total_Tasks (daily st) = [2, 1]
        \<and> map Completed_Tasks (daily st) = [1, 1]
        \<and> map Completion_Rate (daily st) = [50, 100])"
proof -
  define st where "st = statistics_of [((2024, 1, 2), 1), ((2024, 1, 1), 1), ((2024, 1, 1), 0)]"
  have c: "calculate_statistics strptime two_days_db = Inr (Some st)"
    unfolding st_def by code_simp
  have fl: "flags_boolean two_days_db" by code_simp
  have v: "map group_key (daily st) = [(2024, 1, 1), (2024, 1, 2)]"
    "map Total_Tasks (daily st) = [2, 1]" "map Completed_Tasks (daily st) = [1, 1]"
    "map Completion_Rate (daily st) = [50, 100]"
    unfolding st_def by code_simp+
  show ?thesis
    using daily_view_by_date [OF c] c fl v by (intro conjI exI [of _ st]) simp_all
qed

text \<open>
  Claim C5. The weekly view has one row for each ISO week number that occurs among the
  dates of the log, in strictly ascending order of the number. The key is the number
  alone: a row counts every record whose date has that week number, in whatever year.
  When all records have the same week number the view is one row.
\<close>

theorem weekly_view_by_week_number:
  assumes "calculate_statistics to_datetime s = Inr (Some st)"
  shows "sorted_wrt (<) (map group_key (weekly st))
       \<and> set (map group_key (weekly st))
           = {w. \<exists>r\<in>set (progress s). \<exists>d. to_datetime (date r) = Inr d \<and> isocalendar_week d = w}
       \<and> (\<forall>row\<in>set (weekly st).
            Total_Tasks row
              = int (length (filter (\<lambda>r. \<exists>d. to_datetime (date r) = Inr d
                                          \<and> isocalendar_week d = group_key row) (progress s)))
          \<and> Completed_Tasks row
              = sum_list (map completed (filter (\<lambda>r. \<exists>d. to_datetime (date r) = Inr d
                                          \<and> isocalendar_week d = group_key row) (progress s)))
          \<and> Completion_Rate row = (of_int (Completed_Tasks row) / of_int (Total_Tasks row)) * 100)
       \<and> ((\<forall>r\<in>set (progress s). \<exists>d. to_datetime (date r) = Inr d \<and> isocalendar_week d = w)
            \<longrightarrow> length (weekly st) = 1 \<and> map group_key (weekly st) = [w])"
proof -
  note ne = calculate_statistics_Some(1) [OF assms]
  note ok = calculate_statistics_Some(2) [OF assms]
  note st = calculate_statistics_Some(3) [OF assms]
  let ?df = "map (\<lambda>r. (projr (to_datetime (date r)), completed r)) (progress s)"
  have weekly: "weekly st = map with_rate (groupby_agg (\<lambda>x. isocalendar_week (fst x)) snd ?df)"
    unfolding st by (simp add: statistics_of_fields)
  have keys: "map group_key (weekly st)
              = map group_key (groupby_agg (\<lambda>x. isocalendar_week (fst x)) snd ?df)"
    unfolding weekly by (simp add: comp_def)
  have 1: "sorted_wrt (<) (map group_key (weekly st))"
    unfolding keys by (rule frame_group_keys(1) [OF ok])
  have 2: "set (map group_key (weekly st))
           = {w. \<exists>r\<in>set (progress s). \<exists>d. to_datetime (date r) = Inr d \<and> isocalendar_week d = w}"
    unfolding keys by (rule frame_group_keys(2) [OF ok])
  have 3: "Total_Tasks row
              = int (length (filter (\<lambda>r. \<exists>d. to_datetime (date r) = Inr d
                                          \<and> isocalendar_week d = group_key row) (progress s)))
          \<and> Completed_Tasks row
              = sum_list (map completed (filter (\<lambda>r. \<exists>d. to_datetime (date r) = Inr d
                                          \<and> isocalendar_week d = group_key row) (progress s)))
          \<and> Completion_Rate row = (of_int (Completed_Tasks row) / of_int (Total_Tasks row)) * 100"
    if "row \<in> set (weekly st)" for row
  proof -
    from that obtain g where g: "g \<in> set (groupby_agg (\<lambda>x. isocalendar_week (fst x)) snd ?df)"
      and row: "row = with_rate g"
      unfolding weekly by auto
    note fg = frame_group_row [OF ok g]
    show ?thesis
      unfolding row with_rate_fields using fg(1,2) by (intro conjI) (rule fg(1), rule fg(2), rule refl)
  qed
  have 4: "length (weekly st) = 1 \<and> map group_key (weekly st) = [w]"
    if all: "\<forall>r\<in>set (progress s). \<exists>d. to_datetime (date r) = Inr d \<and> isocalendar_week d = w"
  proof -
    from ne obtain r where "r \<in> set (progress s)" by (cases "progress s") auto
    with all have "set (map group_key (weekly st)) = {w}"
      unfolding 2 by (auto simp del: split_paired_Ex)
    moreover have "sorted (map group_key (weekly st))" "distinct (map group_key (weekly st))"
      using 1 by (simp_all add: strict_sorted_iff)
    ultimately have "map group_key (weekly st) = [w]"
      by (intro sorted_distinct_set_unique) simp_all
    then show ?thesis by (metis length_map length_Cons list.size(3) One_nat_def)
  qed
  from 1 2 3 4 show ?thesis by blast
qed

theorem weekly_view_by_week_number_witness:
  "strptime ''2023-03-20'' = Inr (2023, 3, 20) \<and> isocalendar_week (2023, 3, 20) = 12
   \<and> strptime ''2024-03-18'' = Inr (2024, 3, 18) \<and> isocalendar_week (2024, 3, 18) = 12
   \<and> map date (progress two_years_db) = [''2023-03-20'', ''2024-03-18'']
   \<and> (\<exists>st. calculate_statistics strptime two_years_db = Inr (Some st)
        \<and> map group_key (weekly st) = [12]
        \<and> map Total_Tasks (weekly st) = [2]
        \<and> map Completed_Tasks (weekly st) = [1]
        \<and> map Completion_Rate (weekly st) = [50])"
proof -
  define st where "st = statistics_of [((2023, 3, 20), 0), ((2024, 3, 18), 1)]"
  have c: "calculate_statistics strptime two_years_db = Inr (Some st)"
    unfolding st_def by code_simp
  have d: "strptime ''2023-03-20'' = Inr (2023, 3, 20)" "isocalendar_week (2023, 3, 20) = 12"
    "strptime ''2024-03-18'' = Inr (2024, 3, 18)" "isocalendar_week (2024, 3, 18) = 12"
    "map date (progress two_years_db) = [''2023-03-20'', ''2024-03-18'']"
    by code_simp+
  have v: "map Total_Tasks (weekly st) = [2]" "map Completed_Tasks (weekly st) = [1]"
    "map Completion_Rate (weekly st) = [50]"
    unfolding st_def by code_simp+
  have "\<forall>r\<in>set (progress two_years_db). \<exists>d. strptime (date r) = Inr d \<and> isocalendar_week d = 12"
  proof
    fix r assume "r \<in> set (progress two_years_db)"
    then have "date r \<in> set (map date (progress two_years_db))" by simp
    then have "date r = ''2023-03-20'' \<or> date r = ''2024-03-18''" unfolding d(5) by simp
    then show "\<exists>d. strptime (date r) = Inr d \<and> isocalendar_week d = 12"
      using d(1-4) by (auto simp del: split_paired_Ex)
  qed
  with weekly_view_by_week_number [OF c, of 12] have "map group_key (weekly st) = [12]"
    by blast
  then show ?thesis
    using c d v by (intro conjI exI [of _ st]) simp_all
qed

text \<open>
  Claim C4. The daywise view has exactly seven rows, named Monday to Sunday in that
  order. A weekday on which no record of the log falls has a row whose two counts and
  whose rate are \<open>NaN\<close> (\<open>None\<close>), not zero; a weekday with records has the number of its
  records, the sum of their flags and the rate of the two.
\<close>

theorem daywise_view_seven_rows:
  assumes "calculate_statistics to_datetime s = Inr (Some st)"
  shows "map Day_Name (daywise st)
           = [''Monday'', ''Tuesday'', ''Wednesday'', ''Thursday'', ''Friday'', ''Saturday'', ''Sunday'']
       \<and> length (daywise st) = 7
       \<and> (\<forall>row\<in>set (daywise st).
            if \<exists>r\<in>set (progress s). \<exists>d. to_datetime (date r) = Inr d \<and> day_name d = Day_Name row
            then Daywise_Total_Tasks row
                   = Some (int (length (filter (\<lambda>r. \<exists>d. to_datetime (date r) = Inr d
                                                  \<and> day_name d = Day_Name row) (progress s))))
               \<and> Daywise_Completed_Tasks row
                   = Some (sum_list (map completed (filter (\<lambda>r. \<exists>d. to_datetime (date r) = Inr d
                                                  \<and> day_name d = Day_Name row) (progress s))))
               \<and> Daywise_Completion_Rate row
                   = Some ((of_int (the (Daywise_Completed_Tasks row))
                            / of_int (the (Daywise_Total_Tasks row))) * 100)
            else Daywise_Total_Tasks row = None \<and> Daywise_Completed_Tasks row = None
               \<and> Daywise_Completion_Rate row = None)"
proof -
  note ok = calculate_statistics_Some(2) [OF assms]
  note st = calculate_statistics_Some(3) [OF assms]
  let ?df = "map (\<lambda>r. (projr (to_datetime (date r)), completed r)) (progress s)"
  let ?key = "\<lambda>x::datetime \<times> int. day_name (fst x)"
  let ?rows = "map with_rate (groupby_agg ?key snd ?df)"
  have daywise: "daywise st = reindex day_names ?rows"
    unfolding st by (simp add: statistics_of_fields)
  have 1: "map Day_Name (daywise st)
           = [''Monday'', ''Tuesday'', ''Wednesday'', ''Thursday'', ''Friday'', ''Saturday'', ''Sunday'']"
  proof -
    have "map Day_Name (reindex labels rows) = labels" for labels rows
      by (induction labels) (auto simp: reindex_def split: option.splits)
    then show ?thesis unfolding daywise by (simp add: day_names_def)
  qed
  have 2: "length (daywise st) = 7"
    unfolding daywise by (simp add: reindex_def day_names_def)
  have 3: "if \<exists>r\<in>set (progress s). \<exists>d. to_datetime (date r) = Inr d \<and> day_name d = Day_Name row
            then Daywise_Total_Tasks row
                   = Some (int (length (filter (\<lambda>r. \<exists>d. to_datetime (date r) = Inr d
                                                  \<and> day_name d = Day_Name row) (progress s))))
               \<and> Daywise_Completed_Tasks row
                   = Some (sum_list (map completed (filter (\<lambda>r. \<exists>d. to_datetime (date r) = Inr d
                                                  \<and> day_name d = Day_Name row) (progress s))))
               \<and> Daywise_Completion_Rate row
                   = Some ((of_int (the (Daywise_Completed_Tasks row))
                            / of_int (the (Daywise_Total_Tasks row))) * 100)
            else Daywise_Total_Tasks row = None \<and> Daywise_Completed_Tasks row = None
               \<and> Daywise_Completion_Rate row = None"
    if "row \<in> set (daywise st)" for row
  proof -
    from that obtain l where
      row: "row = (case find (\<lambda>g. group_key g = l) ?rows of
                 None \<Rightarrow> \<lparr>Day_Name = l, Daywise_Completed_Tasks = None,
                           Daywise_Total_Tasks = None, Daywise_Completion_Rate = None\<rparr>
               | Some g \<Rightarrow> \<lparr>Day_Name = l, Daywise_Completed_Tasks = Some (Completed_Tasks g),
                             Daywise_Total_Tasks = Some (Total_Tasks g),
                             Daywise_Completion_Rate = Some (Completion_Rate g)\<rparr>)"
      unfolding daywise reindex_def by auto
    have name: "Day_Name row = l"
      unfolding row by (simp split: option.splits)
    have mem: "l \<in> ?key ` set ?df
               \<longleftrightarrow> (\<exists>r\<in>set (progress s). \<exists>d. to_datetime (date r) = Inr d \<and> day_name d = l)"
      using frame_keys [OF ok, of day_name] by (simp add: image_image)
    have flt: "filter (\<lambda>x. day_name (fst x) = l) ?df
               = map (\<lambda>r. (projr (to_datetime (date r)), completed r))
                   (filter (\<lambda>r. \<exists>d. to_datetime (date r) = Inr d \<and> day_name d = l) (progress s))"
      by (rule frame_filter [OF ok])
    show ?thesis
    proof (cases "l \<in> ?key ` set ?df")
      case True
      then have "find (\<lambda>g. group_key g = l) ?rows
                 = Some (with_rate \<lparr>group_key = l,
                     Completed_Tasks = sum_list (map snd (filter (\<lambda>r. ?key r = l) ?df)),
                     Total_Tasks = int (length (filter (\<lambda>r. ?key r = l) ?df))\<rparr>)"
        by (simp only: find_group if_True)
      then have "row = \<lparr>Day_Name = l,
           Daywise_Completed_Tasks = Some (sum_list (map snd (filter (\<lambda>r. ?key r = l) ?df))),
           Daywise_Total_Tasks = Some (int (length (filter (\<lambda>r. ?key r = l) ?df))),
           Daywise_Completion_Rate = Some ((of_int (sum_list (map snd (filter (\<lambda>r. ?key r = l) ?df)))
              / of_int (int (length (filter (\<lambda>r. ?key r = l) ?df)))) * 100)\<rparr>"
        unfolding row by simp
      then show ?thesis
        using True mem unfolding name flt by (simp add: comp_def del: split_paired_Ex)
    next
      case False
      then have "find (\<lambda>g. group_key g = l) ?rows = None"
        by (simp only: find_group if_False)
      then have "row = \<lparr>Day_Name = l, Daywise_Completed_Tasks = None,
                           Daywise_Total_Tasks = None, Daywise_Completion_Rate = None\<rparr>"
        unfolding row by simp
      then show ?thesis
        using False mem unfolding name by (simp del: split_paired_Ex)
    qed
  qed
  from 1 2 3 show ?thesis by blast
qed

theorem daywise_view_seven_rows_witness:
  "\<exists>st. calculate_statistics strptime two_days_db = Inr (Some st)
     \<and> map Day_Name (daywise st)
         = [''Monday'', ''Tuesday'', ''Wednesday'', ''Thursday'', ''Friday'', ''Saturday'', ''Sunday'']
     \<and> map Daywise_Total_Tasks (daywise st) = [Some 2, Some 1, None, None, None, None, None]
     \<and> map Daywise_Completed_Tasks (daywise st) = [Some 1, Some 1, None, None, None, None, None]
     \<and> map Daywise_Completion_Rate (daywise st)
         = [Some 50, Some 100, None, None, None, None, None]"
proof -
  define st where "st = statistics_of [((2024, 1, 2), 1), ((2024, 1, 1), 1), ((2024, 1, 1), 0)]"
  have c: "calculate_statistics strptime two_days_db = Inr (Some st)"
    unfolding st_def by code_simp
  have v: "map Daywise_Total_Tasks (daywise st) = [Some 2, Some 1, None, None, None, None, None]"
    "map Daywise_Completed_Tasks (daywise st) = [Some 1, Some 1, None, None, None, None, None]"
    "map Daywise_Completion_Rate (daywise st) = [Some 50, Some 100, None, None, None, None, None]"
    unfolding st_def by code_simp+
  show ?thesis
    using daywise_view_seven_rows [OF c] c v by (intro exI [of _ st]) simp
qed

text \<open>
  Claim C2. When \<open>get_weekly_progress\<close> returns rows, they are one row for each date
  string that occurs in the progress table, in strictly ascending order, and no row for
  any other date. The percentage of a row is the number of records of that date with
  \<open>completed = 1\<close>, divided by the number of rows of the task table whose day is the
  weekday name of the date, times 100; it is 0 when the task table has no row for that
  weekday. It returns rows whenever \<open>strptime\<close> reads every date of the table.
\<close>

theorem weekly_progress_rows:
  "(get_weekly_progress s = Inr rows \<longrightarrow>
      map fst rows = sort (remdups (map date (progress s)))
    \<and> sorted_wrt (<) (map fst rows)
    \<and> set (map fst rows) = date ` set (progress s)
    \<and> (\<forall>row\<in>set rows. \<exists>date_obj. strptime (fst row) = Inr date_obj
         \<and> snd row =
             (if length (filter (\<lambda>t. day t = day_name date_obj) (tasks s)) > 0
              then (of_nat (length (filter (\<lambda>r. date r = fst row \<and> completed r = 1) (progress s)))
                    / of_nat (length (filter (\<lambda>t. day t = day_name date_obj) (tasks s)))) * 100
              else 0)))
   \<and> ((\<forall>r\<in>set (progress s). \<not> isl (strptime (date r)))
        \<longrightarrow> (\<exists>rows'. get_weekly_progress s = Inr rows'))"
proof (intro conjI impI)
  show "\<exists>rows'. get_weekly_progress s = Inr rows'"
    if "\<forall>r\<in>set (progress s). \<not> isl (strptime (date r))"
    using get_weekly_progress_ok [OF that] by blast
next
  assume res: "get_weekly_progress s = Inr rows"
  note ok = get_weekly_progress_Inr [OF res]
  let ?pct = "\<lambda>d. if int (length (get_tasks (day_name (projr (strptime d))) s)) > 0
              then (of_int (int (length (filter (\<lambda>r. date r = d \<and> completed r = 1) (progress s))))
                    / of_int (int (length (get_tasks (day_name (projr (strptime d))) s)))) * 100
              else (0::rat)"
  have rows: "rows = map (\<lambda>d. (d, ?pct d)) (sort (remdups (map date (progress s))))"
    using res get_weekly_progress_ok [OF ok] by simp
  show keys: "map fst rows = sort (remdups (map date (progress s)))"
    unfolding rows by (simp add: comp_def)
  show "sorted_wrt (<) (map fst rows)"
    unfolding keys by (simp add: strict_sorted_iff)
  show "set (map fst rows) = date ` set (progress s)"
    unfolding keys by simp
  show "\<forall>row\<in>set rows. \<exists>date_obj. strptime (fst row) = Inr date_obj
         \<and> snd row =
             (if length (filter (\<lambda>t. day t = day_name date_obj) (tasks s)) > 0
              then (of_nat (length (filter (\<lambda>r. date r = fst row \<and> completed r = 1) (progress s)))
                    / of_nat (length (filter (\<lambda>t. day t = day_name date_obj) (tasks s)))) * 100
              else 0)"
  proof
    fix row assume "row \<in> set rows"
    then obtain d where d: "d \<in> date ` set (progress s)" and row: "row = (d, ?pct d)"
      unfolding rows by auto
    from d ok obtain dt where dt: "strptime d = Inr dt"
      by (cases "strptime d") auto
    show "\<exists>date_obj. strptime (fst row) = Inr date_obj
         \<and> snd row =
             (if length (filter (\<lambda>t. day t = day_name date_obj) (tasks s)) > 0
              then (of_nat (length (filter (\<lambda>r. date r = fst row \<and> completed r = 1) (progress s)))
                    / of_nat (length (filter (\<lambda>t. day t = day_name date_obj) (tasks s)))) * 100
              else 0)"
      unfolding row using dt by (intro exI [of _ dt]) (simp add: get_tasks_def)
  qed
qed

theorem weekly_progress_rows_witness:
  "get_weekly_progress two_days_db = Inr [(''2024-01-01'', 50), (''2024-01-02'', 100)]
   \<and> map date (progress two_days_db) = [''2024-01-02'', ''2024-01-01'', ''2024-01-01'']
   \<and> strptime ''2024-01-01'' = Inr (2024, 1, 1) \<and> day_name (2024, 1, 1) = ''Monday''
   \<and> length (filter (\<lambda>t. day t = ''Monday'') (tasks two_days_db)) = 2
   \<and> length (filter (\<lambda>r. date r = ''2024-01-01'' \<and> completed r = 1) (progress two_days_db)) = 1"
proof -
  have c: "get_weekly_progress two_days_db = Inr [(''2024-01-01'', 50), (''2024-01-02'', 100)]"
    by code_simp
  have v: "map date (progress two_days_db) = [''2024-01-02'', ''2024-01-01'', ''2024-01-01'']"
    "strptime ''2024-01-01'' = Inr (2024, 1, 1)" "day_name (2024, 1, 1) = ''Monday''"
    "length (filter (\<lambda>t. day t = ''Monday'') (tasks two_days_db)) = 2"
    "length (filter (\<lambda>r. date r = ''2024-01-01'' \<and> completed r = 1) (progress two_days_db)) = 1"
    by code_simp+
  show ?thesis
    using weekly_progress_rows [of two_days_db "[(''2024-01-01'', 50), (''2024-01-02'', 100)]"] c v
    by simp
qed

text \<open>
  Claim C7. The ranking has at most five rows and its counts do not increase from one
  row to the next. It has one row for a description; the description is that of a row of
  the task table and its count is at least 1. With \<open>tasks.id\<close> a key, the count of a
  description is the number of records with \<open>completed = 0\<close> whose \<open>task_id\<close> is the id of
  a task with that description. A record whose \<open>task_id\<close> is the id of no task counts for
  nothing: the ranking is the same with these records removed, and after \<open>delete_task\<close>
  it is the same as if the records of the deleted task were gone.
\<close>

theorem incomplete_ranking:
  "length (incomplete_tasks s) \<le> 5
   \<and> sorted_wrt (\<lambda>a b. snd a \<ge> snd b) (incomplete_tasks s)
   \<and> distinct (map fst (incomplete_tasks s))
   \<and> (\<forall>row\<in>set (incomplete_tasks s). fst row \<in> task ` set (tasks s) \<and> snd row \<ge> 1)
   \<and> (distinct (map id' (tasks s)) \<longrightarrow>
        (\<forall>row\<in>set (incomplete_tasks s).
           snd row = int (length (filter (\<lambda>p. completed p = 0
                         \<and> (\<exists>t\<in>set (tasks s). id' t = task_id p \<and> task t = fst row)) (progress s)))))
   \<and> incomplete_tasks (s\<lparr>progress := filter (\<lambda>p. \<exists>t\<in>set (tasks s). id' t = task_id p) (progress s)\<rparr>)
       = incomplete_tasks s
   \<and> incomplete_tasks (delete_task i (s\<lparr>progress := filter (\<lambda>p. task_id p \<noteq> i) (progress s)\<rparr>))
       = incomplete_tasks (delete_task i s)"
proof (intro conjI impI ballI)
  show "length (incomplete_tasks s) \<le> 5"
    by (simp add: incomplete_tasks_def Let_def)
  show "sorted_wrt (\<lambda>a b. snd a \<ge> snd b) (incomplete_tasks s)"
    unfolding incomplete_tasks_def Let_def by (rule sorted_desc)
  show "distinct (map fst (incomplete_tasks s))"
    by (rule incomplete_tasks_distinct)
  show "fst row \<in> task ` set (tasks s)" if "row \<in> set (incomplete_tasks s)" for row
    using incomplete_tasks_rows(1) [OF that] join_set by blast
  show "snd row \<ge> 1" if "row \<in> set (incomplete_tasks s)" for row
  proof -
    from incomplete_tasks_rows(1) [OF that]
    have "filter (\<lambda>x. x = fst row) (incomplete_join s) \<noteq> []"
      by (auto simp: filter_empty_conv)
    then have "length (filter (\<lambda>x. x = fst row) (incomplete_join s)) \<ge> 1"
      by (cases "filter (\<lambda>x. x = fst row) (incomplete_join s)") auto
    then show ?thesis unfolding incomplete_tasks_rows(2) [OF that] by simp
  qed
  show "snd row = int (length (filter (\<lambda>p. completed p = 0
                         \<and> (\<exists>t\<in>set (tasks s). id' t = task_id p \<and> task t = fst row)) (progress s)))"
    if "distinct (map id' (tasks s))" "row \<in> set (incomplete_tasks s)" for row
    unfolding incomplete_tasks_rows(2) [OF that(2)] join_count [OF that(1)] ..
  show "incomplete_tasks (s\<lparr>progress := filter (\<lambda>p. \<exists>t\<in>set (tasks s). id' t = task_id p) (progress s)\<rparr>)
       = incomplete_tasks s"
    by (rule incomplete_tasks_cong) (rule join_dangling)
  show "incomplete_tasks (delete_task i (s\<lparr>progress := filter (\<lambda>p. task_id p \<noteq> i) (progress s)\<rparr>))
       = incomplete_tasks (delete_task i s)"
  proof (rule incomplete_tasks_cong)
    show "incomplete_join (delete_task i (s\<lparr>progress := filter (\<lambda>p. task_id p \<noteq> i) (progress s)\<rparr>))
          = incomplete_join (delete_task i s)"
      unfolding incomplete_join_concat by (simp add: delete_task_def join_deleted)
  qed
qed

theorem incomplete_ranking_witness:
  "distinct (map id' (tasks ranking_db))
   \<and> \<lparr>date = ''2024-01-02'', task_id = 3, completed = 0\<rparr> \<in> set (progress ranking_db)
   \<and> incomplete_tasks ranking_db = [(''dust'', 2), (''mop'', 1)]
   \<and> incomplete_tasks (ranking_db\<lparr>progress := filter (\<lambda>p. task_id p \<noteq> 3) (progress ranking_db)\<rparr>)
       = [(''dust'', 2), (''mop'', 1)]"
proof -
  have d: "distinct (map id' (tasks ranking_db))"
    "\<lparr>date = ''2024-01-02'', task_id = 3, completed = 0\<rparr> \<in> set (progress ranking_db)"
    "incomplete_tasks ranking_db = [(''dust'', 2), (''mop'', 1)]"
    "incomplete_tasks (ranking_db\<lparr>progress := filter (\<lambda>p. task_id p \<noteq> 3) (progress ranking_db)\<rparr>)
       = [(''dust'', 2), (''mop'', 1)]"
    by code_simp+
  show ?thesis
    using incomplete_ranking [of ranking_db 3] d by simp
qed

text \<open>
  Claim C1, as the source has it. The claim bounds the percentage of
  \<open>get_weekly_progress\<close> by 100. Its denominator is the number of tasks now assigned to
  the weekday, not the number of records of the date: in \<open>deleted_task_db\<close> two Monday
  tasks were completed on Monday 1 January 2024 and one of them was deleted afterwards,
  and the row of that date is 200 percent.
\<close>

theorem weekly_progress_above_100:
  "progress deleted_task_db \<noteq> []
   \<and> flags_boolean deleted_task_db
   \<and> get_weekly_progress deleted_task_db = Inr [(''2024-01-01'', 200)]
   \<and> \<not> snd (''2024-01-01'', 200 :: rat) \<le> 100"
  by code_simp

text \<open>
  Claim C1, amended. On a log whose flags are 0 or 1, in the overall, daily, weekly and
  heatmap views of \<open>calculate_statistics\<close> the completed count is between 0 and the total,
  and the overall, daily and weekly rates are between 0 and 100. A daywise row either
  has both counts and the rate, with the same bounds, or has \<open>NaN\<close> in all three (a
  weekday without records). A percentage of \<open>get_weekly_progress\<close> is never negative, and
  it is at most 100 exactly when no task is assigned to the weekday of the date or the
  completed records of the date are no more than the tasks assigned to that weekday.
\<close>

theorem counts_and_rates_bounded:
  assumes "flags_boolean s"
  shows "(calculate_statistics to_datetime s = Inr (Some st) \<longrightarrow>
            0 \<le> completed_tasks (overall st)
          \<and> completed_tasks (overall st) \<le> total_tasks (overall st)
          \<and> 0 \<le> completion_rate (overall st) \<and> completion_rate (overall st) \<le> 100
          \<and> (\<forall>row\<in>set (daily st).
                0 \<le> Completed_Tasks row \<and> Completed_Tasks row \<le> Total_Tasks row
              \<and> 0 \<le> Completion_Rate row \<and> Completion_Rate row \<le> 100)
          \<and> (\<forall>row\<in>set (weekly st).
                0 \<le> Completed_Tasks row \<and> Completed_Tasks row \<le> Total_Tasks row
              \<and> 0 \<le> Completion_Rate row \<and> Completion_Rate row \<le> 100)
          \<and> (\<forall>row\<in>set (daywise st).
                case (Daywise_Completed_Tasks row, Daywise_Total_Tasks row,
                      Daywise_Completion_Rate row) of
                  (Some c, Some t, Some r) \<Rightarrow> 0 \<le> c \<and> c \<le> t \<and> 0 \<le> r \<and> r \<le> 100
                | (None, None, None) \<Rightarrow> True
                | _ \<Rightarrow> False)
          \<and> (\<forall>row\<in>set (heatmap st).
                0 \<le> Completed_Tasks row \<and> Completed_Tasks row \<le> Total_Tasks row))
       \<and> (get_weekly_progress s = Inr rows \<longrightarrow>
            (\<forall>row\<in>set rows. 0 \<le> snd row
               \<and> (\<forall>date_obj. strptime (fst row) = Inr date_obj \<longrightarrow>
                    (snd row \<le> 100 \<longleftrightarrow>
                       length (filter (\<lambda>t. day t = day_name date_obj) (tasks s)) = 0
                     \<or> length (filter (\<lambda>r. date r = fst row \<and> completed r = 1) (progress s))
                         \<le> length (filter (\<lambda>t. day t = day_name date_obj) (tasks s))))))"
proof (intro conjI impI)
  assume res: "get_weekly_progress s = Inr rows"
  show "\<forall>row\<in>set rows. 0 \<le> snd row
               \<and> (\<forall>date_obj. strptime (fst row) = Inr date_obj \<longrightarrow>
                    (snd row \<le> 100 \<longleftrightarrow>
                       length (filter (\<lambda>t. day t = day_name date_obj) (tasks s)) = 0
                     \<or> length (filter (\<lambda>r. date r = fst row \<and> completed r = 1) (progress s))
                         \<le> length (filter (\<lambda>t. day t = day_name date_obj) (tasks s))))"
  proof (intro ballI conjI allI impI)
    fix row assume row: "row \<in> set rows"
    note ok = get_weekly_progress_Inr [OF res]
    from res get_weekly_progress_ok [OF ok] row
    obtain d where r: "row = (d,
              if int (length (get_tasks (day_name (projr (strptime d))) s)) > 0
              then (of_int (int (length (filter (\<lambda>r. date r = d \<and> completed r = 1) (progress s))))
                    / of_int (int (length (get_tasks (day_name (projr (strptime d))) s)))) * 100
              else (0::rat))"
      by auto
    show "0 \<le> snd row" unfolding r by simp
    fix date_obj assume dt: "strptime (fst row) = Inr date_obj"
    let ?n = "length (filter (\<lambda>t. day t = day_name date_obj) (tasks s))"
    let ?c = "length (filter (\<lambda>r. date r = fst row \<and> completed r = 1) (progress s))"
    have v: "snd row = (if ?n > 0 then (of_nat ?c / of_nat ?n) * 100 else 0)"
      using dt unfolding r by (simp add: get_tasks_def)
    show "snd row \<le> 100 \<longleftrightarrow> ?n = 0 \<or> ?c \<le> ?n"
    proof (cases "?n > 0")
      case True
      then have "(of_nat ?c / of_nat ?n) * (100::rat) \<le> 100 \<longleftrightarrow> (of_nat ?c :: rat) \<le> of_nat ?n"
        by (simp add: divide_le_eq)
      also have "\<dots> \<longleftrightarrow> ?c \<le> ?n" by (simp only: of_nat_le_iff)
      finally show ?thesis using True v by simp
    next
      case False
      then show ?thesis using v by simp
    qed
  qed
next
  assume calc: "calculate_statistics to_datetime s = Inr (Some st)"
  note ne = calculate_statistics_Some(1) [OF calc]
  note st = calculate_statistics_Some(3) [OF calc]
  let ?df = "map (\<lambda>r. (projr (to_datetime (date r)), completed r)) (progress s)"
  have flags: "\<forall>x\<in>set ?df. snd x = 0 \<or> snd x = 1"
    using assms by (auto simp: flags_boolean_def list_all_iff)
  have dfne: "?df \<noteq> []" using ne by simp
  note ov = overall_bounds [OF flags dfne, folded st]
  from ov show "0 \<le> completed_tasks (overall st)" by simp
  from ov show "completed_tasks (overall st) \<le> total_tasks (overall st)" by simp
  from ov show "0 \<le> completion_rate (overall st)" by simp
  from ov show "completion_rate (overall st) \<le> 100" by simp
  show "\<forall>row\<in>set (daily st).
                0 \<le> Completed_Tasks row \<and> Completed_Tasks row \<le> Total_Tasks row
              \<and> 0 \<le> Completion_Rate row \<and> Completion_Rate row \<le> 100"
    unfolding st statistics_of_fields using rate_row_bounds [OF flags] by blast
  show "\<forall>row\<in>set (weekly st).
                0 \<le> Completed_Tasks row \<and> Completed_Tasks row \<le> Total_Tasks row
              \<and> 0 \<le> Completion_Rate row \<and> Completion_Rate row \<le> 100"
    unfolding st statistics_of_fields using rate_row_bounds [OF flags] by blast
  show "\<forall>row\<in>set (daywise st).
                case (Daywise_Completed_Tasks row, Daywise_Total_Tasks row,
                      Daywise_Completion_Rate row) of
                  (Some c, Some t, Some r) \<Rightarrow> 0 \<le> c \<and> c \<le> t \<and> 0 \<le> r \<and> r \<le> 100
                | (None, None, None) \<Rightarrow> True
                | _ \<Rightarrow> False"
    unfolding st statistics_of_fields using daywise_row_bounds [OF flags] by blast
  show "\<forall>row\<in>set (heatmap st).
                0 \<le> Completed_Tasks row \<and> Completed_Tasks row \<le> Total_Tasks row"
    unfolding st statistics_of_fields using group_bounds(1,2) [OF flags] by blast
qed

theorem counts_and_rates_bounded_witness:
  "flags_boolean two_days_db
   \<and> (\<exists>st. calculate_statistics strptime two_days_db = Inr (Some st)
        \<and> overall st = \<lparr>total_tasks = 3, completed_tasks = 2, completion_rate = 200 / 3\<rparr>
        \<and> map Completion_Rate (daily st) = [50, 100]
        \<and> map Completion_Rate (weekly st) = [200 / 3]
        \<and> map Completed_Tasks (heatmap st) = [1, 1]
        \<and> map Total_Tasks (heatmap st) = [2, 1])
   \<and> get_weekly_progress two_days_db = Inr [(''2024-01-01'', 50), (''2024-01-02'', 100)]"
proof -
  define st where "st = statistics_of [((2024, 1, 2), 1), ((2024, 1, 1), 1), ((2024, 1, 1), 0)]"
  have c: "calculate_statistics strptime two_days_db = Inr (Some st)"
    unfolding st_def by code_simp
  have fl: "flags_boolean two_days_db" by code_simp
  have w: "get_weekly_progress two_days_db = Inr [(''2024-01-01'', 50), (''2024-01-02'', 100)]"
    by code_simp
  have v: "overall st = \<lparr>total_tasks = 3, completed_tasks = 2, completion_rate = 200 / 3\<rparr>"
    "map Completion_Rate (daily st) = [50, 100]"
    "map Completion_Rate (weekly st) = [200 / 3]"
    "map Completed_Tasks (heatmap st) = [1, 1]"
    "map Total_Tasks (heatmap st) = [2, 1]"
    unfolding st_def by code_simp+
  show ?thesis
    using counts_and_rates_bounded [OF fl, of strptime st
        "[(''2024-01-01'', 50), (''2024-01-02'', 100)]"] c fl w v
    by (intro conjI exI [of _ st]) simp_all
qed

end
